theory Spec2Isabelle
  imports Complex_Main "HOL-Library.Word"
begin

section \<open>Strings\<close>

text \<open>
  A JavaScript string is a sequence of 16-bit code units, and \<open>length\<close>, the regular
  expressions (none of them has the \<open>u\<close> flag) and \<open>replace\<close> all work on code units.
  Literals of the source are written with \<open>js\<close>.
\<close>

type_synonym jschar = "16 word"
type_synonym jsstring = "jschar list"

definition js :: "string \<Rightarrow> jsstring" where
  "js s = map (\<lambda>c. of_char c) s"

text \<open>The character class \<open>\s\<close> of ECMAScript: white space and line terminators.\<close>

definition is_space :: "jschar \<Rightarrow> bool" where
  "is_space c =
     (c \<in> set [0x09, 0x0A, 0x0B, 0x0C, 0x0D, 0x20, 0xA0, 0x1680, 0x2028, 0x2029,
                0x202F, 0x205F, 0x3000, 0xFEFF]
      \<or> (0x2000 \<le> c \<and> c \<le> 0x200A))"

text \<open>
  The flag \<open>i\<close> compares canonicalised code units. Without the flag \<open>u\<close> a code unit
  outside ASCII never canonicalises to an ASCII one, and every pattern character of the
  source is ASCII, so upper-casing the range \<open>a-z\<close> is all that matters.
\<close>

definition canon :: "jschar \<Rightarrow> jschar" where
  "canon c = (if 0x61 \<le> c \<and> c \<le> 0x7A then c - 0x20 else c)"

text \<open>
  A literal piece of a pattern, matched at the start of the input under the flag \<open>i\<close>:
  the matched text (as the input spells it) and the rest of the input.
\<close>

definition match_lit :: "jsstring \<Rightarrow> jsstring \<Rightarrow> (jsstring \<times> jsstring) option" where
  "match_lit p s =
     (if length p \<le> length s \<and> map canon (take (length p) s) = map canon p
      then Some (take (length p) s, drop (length p) s) else None)"

section \<open>The HTML sanitizer \<open>isJsScript\<close>\<close>

text \<open>
  \<^verbatim>\<open>const scriptRegex = /<\s*script[^>]*>([\s\S]*?)<\/\s*script>/gi;\<close>

  Every quantifier of the pattern is followed by a character it cannot itself consume
  (\<open>\s*\<close> by \<open>s\<close>, \<open>[^>]*\<close> by \<open>>\<close>), so the greedy ones have one way to match, and the lazy
  group stops at the first place where the closing tag matches.
\<close>

text \<open>\<^verbatim>\<open><\s*script[^>]*>\<close>: the rest of the input after the opening tag.\<close>

definition open_tag :: "jsstring \<Rightarrow> jsstring option" where
  "open_tag s =
     (case match_lit (js ''<'') s of
        None \<Rightarrow> None
      | Some (_, r1) \<Rightarrow>
          (case match_lit (js ''script'') (dropWhile is_space r1) of
             None \<Rightarrow> None
           | Some (_, r2) \<Rightarrow>
               (case match_lit (js ''>'') (dropWhile (\<lambda>c. c \<noteq> 0x3E) r2) of
                  None \<Rightarrow> None
                | Some (_, r3) \<Rightarrow> Some r3)))"

text \<open>\<^verbatim>\<open><\/\s*script>\<close>: the rest of the input after the closing tag.\<close>

definition close_tag :: "jsstring \<Rightarrow> jsstring option" where
  "close_tag s =
     (case match_lit (js ''</'') s of
        None \<Rightarrow> None
      | Some (_, r1) \<Rightarrow>
          (case match_lit (js ''script'') (dropWhile is_space r1) of
             None \<Rightarrow> None
           | Some (_, r2) \<Rightarrow>
               (case match_lit (js ''>'') r2 of
                  None \<Rightarrow> None
                | Some (_, r3) \<Rightarrow> Some r3)))"

text \<open>
  \<^verbatim>\<open>([\s\S]*?)<\/\s*script>\<close>: the shortest content after which the closing tag
  matches, and the rest of the input after that tag.
\<close>

fun lazy_content :: "jsstring \<Rightarrow> (jsstring \<times> jsstring) option" where
  "lazy_content [] = None"
| "lazy_content (c # cs) =
     (case close_tag (c # cs) of
        Some rest \<Rightarrow> Some ([], rest)
      | None \<Rightarrow>
          (case lazy_content cs of
             None \<Rightarrow> None
           | Some (content, rest) \<Rightarrow> Some (c # content, rest)))"

text \<open>A match of the whole pattern at the start of the input: group 1 and the rest.\<close>

definition match_script :: "jsstring \<Rightarrow> (jsstring \<times> jsstring) option" where
  "match_script s = (case open_tag s of None \<Rightarrow> None | Some r \<Rightarrow> lazy_content r)"

lemma match_lit_length:
  "match_lit p s = Some (m, r) \<Longrightarrow> length r + length p = length s"
  by (auto simp: match_lit_def split: if_splits)

lemma open_tag_length: "open_tag s = Some r \<Longrightarrow> length r < length s"
proof -
  assume a: "open_tag s = Some r"
  then obtain m1 r1 m2 r2 m3 where
    1: "match_lit (js ''<'') s = Some (m1, r1)" and
    2: "match_lit (js ''script'') (dropWhile is_space r1) = Some (m2, r2)" and
    3: "match_lit (js ''>'') (dropWhile (\<lambda>c. c \<noteq> 0x3E) r2) = Some (m3, r)"
    by (auto simp: open_tag_def split: option.splits)
  have "length r \<le> length (dropWhile (\<lambda>c. c \<noteq> 0x3E) r2)"
    using match_lit_length [OF 3] by simp
  also have "\<dots> \<le> length r2" by (rule length_dropWhile_le)
  also have "\<dots> \<le> length (dropWhile is_space r1)"
    using match_lit_length [OF 2] by simp
  also have "\<dots> \<le> length r1" by (rule length_dropWhile_le)
  also have "\<dots> < length s"
    using match_lit_length [OF 1] by (simp add: js_def)
  finally show ?thesis .
qed

lemma close_tag_length: "close_tag s = Some r \<Longrightarrow> length r < length s"
proof -
  assume a: "close_tag s = Some r"
  then obtain m1 r1 m2 r2 m3 where
    1: "match_lit (js ''</'') s = Some (m1, r1)" and
    2: "match_lit (js ''script'') (dropWhile is_space r1) = Some (m2, r2)" and
    3: "match_lit (js ''>'') r2 = Some (m3, r)"
    by (auto simp: close_tag_def split: option.splits)
  have "length r \<le> length r2"
    using match_lit_length [OF 3] by simp
  also have "\<dots> \<le> length (dropWhile is_space r1)"
    using match_lit_length [OF 2] by simp
  also have "\<dots> \<le> length r1" by (rule length_dropWhile_le)
  also have "\<dots> < length s"
    using match_lit_length [OF 1] by (simp add: js_def)
  finally show ?thesis .
qed

lemma lazy_content_length: "lazy_content s = Some (content, r) \<Longrightarrow> length r < length s"
proof (induction s arbitrary: content r)
  case Nil
  then show ?case by simp
next
  case (Cons c cs)
  show ?case
  proof (cases "close_tag (c # cs)")
    case (Some rest)
    with Cons.prems have "r = rest" by simp
    with Some show ?thesis by (auto dest: close_tag_length)
  next
    case None
    with Cons.prems obtain content' where "lazy_content cs = Some (content', r)"
      by (auto split: option.splits)
    from Cons.IH [OF this] show ?thesis by simp
  qed
qed

lemma match_script_length: "match_script s = Some (content, r) \<Longrightarrow> length r < length s"
  by (auto simp: match_script_def split: option.splits
      dest!: open_tag_length lazy_content_length)

text \<open>
  \<^verbatim>\<open>input.replace(scriptRegex, (_, scriptContent) => scriptContent)\<close>: the global
  replacement scans from the left; a match is replaced by its group 1 and the scan goes
  on after the match, a position with no match keeps its character.
\<close>

function replace_script :: "jsstring \<Rightarrow> jsstring" where
  "replace_script [] = []"
| "replace_script (c # cs) =
     (case match_script (c # cs) of
        Some (content, rest) \<Rightarrow> content @ replace_script rest
      | None \<Rightarrow> c # replace_script cs)"
  by pat_completeness auto
termination
  by (relation "measure length") (auto dest: match_script_length)

text \<open>The \<open>switch\<close> of \<open>escapeHtml\<close>, on one character of the class \<^verbatim>\<open>[&<>"']\<close>.\<close>

definition escape_char :: "jschar \<Rightarrow> jsstring" where
  "escape_char c =
     (if c = 0x26 then js ''&amp;''
      else if c = 0x3C then js ''&lt;''
      else if c = 0x3E then js ''&gt;''
      else if c = 0x22 then js ''&quot;''
      else if c = 0x27 then js ''&#39;''
      else [c])"

definition escapeHtml :: "jsstring \<Rightarrow> jsstring" where
  "escapeHtml str = concat (map escape_char str)"

definition isJsScript :: "jsstring \<Rightarrow> jsstring" where
  "isJsScript input = escapeHtml (replace_script input)"

section \<open>The SQL sanitizer \<open>isSqlInjection\<close>\<close>

text \<open>The character class \<open>\w\<close>, which decides the assertion \<open>\b\<close>.\<close>

definition is_word :: "jschar \<Rightarrow> bool" where
  "is_word c =
     ((0x41 \<le> c \<and> c \<le> 0x5A) \<or> (0x61 \<le> c \<and> c \<le> 0x7A) \<or> (0x30 \<le> c \<and> c \<le> 0x39)
      \<or> c = 0x5F)"

text \<open>
  \<open>\b\<close> holds between the character before a position (none at the start of the input)
  and the rest of the input from that position when exactly one side is a word character.
\<close>

definition word_boundary :: "jschar option \<Rightarrow> jsstring \<Rightarrow> bool" where
  "word_boundary prev rest =
     ((case prev of None \<Rightarrow> False | Some c \<Rightarrow> is_word c)
      \<noteq> (case rest of [] \<Rightarrow> False | c # _ \<Rightarrow> is_word c))"

text \<open>
  \<^verbatim>\<open>/(\b(SELECT|INSERT|UPDATE|DELETE|DROP|CREATE|TRUNCATE|EXEC|EXECUTE|UNION|OR|AND|\<close>
  \<^verbatim>\<open>LIMIT|OFFSET|HAVING|WAITFOR|LIKE|IN|BETWEEN|CONCAT|--|\/\*|\*\/|#|;|--|\<close>
  \<^verbatim>\<open>\bDROP\s+TABLE|\bSHOW\s+TABLES|\bUNION\s+SELECT|\bINSERT\s+INTO)\b)/gi\<close>

  The alternatives of the inner group, in the order of the source: a token, or a phrase
  \<open>\bK1\s+K2\<close>.
\<close>

datatype alt = Token string | Phrase string string

definition alternatives :: "alt list" where
  "alternatives =
     [Token ''SELECT'', Token ''INSERT'', Token ''UPDATE'', Token ''DELETE'', Token ''DROP'',
      Token ''CREATE'', Token ''TRUNCATE'', Token ''EXEC'', Token ''EXECUTE'', Token ''UNION'',
      Token ''OR'', Token ''AND'', Token ''LIMIT'', Token ''OFFSET'', Token ''HAVING'',
      Token ''WAITFOR'', Token ''LIKE'', Token ''IN'', Token ''BETWEEN'', Token ''CONCAT'',
      Token ''--'', Token ''/*'', Token ''*/'', Token ''#'', Token '';'', Token ''--'',
      Phrase ''DROP'' ''TABLE'', Phrase ''SHOW'' ''TABLES'', Phrase ''UNION'' ''SELECT'',
      Phrase ''INSERT'' ''INTO'']"

text \<open>
  One alternative at the start of the input: the matched text and the rest. In a phrase
  \<open>\s+\<close> is followed by a letter, so it takes all the white space there is.
\<close>

fun match_alt :: "jschar option \<Rightarrow> alt \<Rightarrow> jsstring \<Rightarrow> (jsstring \<times> jsstring) option" where
  "match_alt prev (Token k) s = match_lit (js k) s"
| "match_alt prev (Phrase k1 k2) s =
     (if \<not> word_boundary prev s then None
      else case match_lit (js k1) s of
        None \<Rightarrow> None
      | Some (m1, r1) \<Rightarrow>
          if takeWhile is_space r1 = [] then None
          else case match_lit (js k2) (dropWhile is_space r1) of
            None \<Rightarrow> None
          | Some (m2, r2) \<Rightarrow> Some (m1 @ takeWhile is_space r1 @ m2, r2))"

text \<open>The character before the rest of the input, once \<open>m\<close> has been matched.\<close>

definition before_rest :: "jschar option \<Rightarrow> jsstring \<Rightarrow> jschar option" where
  "before_rest prev m = (if m = [] then prev else Some (last m))"

text \<open>
  The alternation followed by the closing \<open>\b\<close>: the first alternative, in order, that
  matches and ends at a word boundary (the matcher backtracks into the alternation when
  the assertion fails).
\<close>

fun first_alt :: "jschar option \<Rightarrow> alt list \<Rightarrow> jsstring \<Rightarrow> (jsstring \<times> jsstring) option" where
  "first_alt prev [] s = None"
| "first_alt prev (a # as) s =
     (case match_alt prev a s of
        None \<Rightarrow> first_alt prev as s
      | Some (m, r) \<Rightarrow>
          if word_boundary (before_rest prev m) r then Some (m, r) else first_alt prev as s)"

text \<open>A match of the whole pattern at a position: the opening \<open>\b\<close>, then the group.\<close>

definition sql_match :: "jschar option \<Rightarrow> jsstring \<Rightarrow> (jsstring \<times> jsstring) option" where
  "sql_match prev s = (if word_boundary prev s then first_alt prev alternatives s else None)"

text \<open>\<^verbatim>\<open>match.replace(/([;#\/*\-])/g, "\\$1")\<close>: a backslash before each of the five.\<close>

definition is_punct :: "jschar \<Rightarrow> bool" where
  "is_punct c = (c \<in> set (js '';#/*-''))"

definition escape_match :: "jsstring \<Rightarrow> jsstring" where
  "escape_match m = concat (map (\<lambda>c. if is_punct c then [0x5C, c] else [c]) m)"

definition alt_nonempty :: "alt \<Rightarrow> bool" where
  "alt_nonempty a = (case a of Token k \<Rightarrow> k \<noteq> [] | Phrase k1 k2 \<Rightarrow> k1 \<noteq> [])"

lemma match_lit_append: "match_lit p s = Some (m, r) \<Longrightarrow> s = m @ r \<and> length m = length p"
  by (auto simp: match_lit_def split: if_splits)

lemma match_alt_append:
  assumes "match_alt prev a s = Some (m, r)"
  shows "s = m @ r \<and> (alt_nonempty a \<longrightarrow> m \<noteq> [])"
proof (cases a)
  case (Token k)
  with assms have "match_lit (js k) s = Some (m, r)" by simp
  from match_lit_append [OF this] Token show ?thesis
    by (auto simp: alt_nonempty_def js_def)
next
  case (Phrase k1 k2)
  with assms obtain m1 r1 m2 where
    1: "match_lit (js k1) s = Some (m1, r1)" and
    2: "match_lit (js k2) (dropWhile is_space r1) = Some (m2, r)" and
    3: "m = m1 @ takeWhile is_space r1 @ m2"
    by (auto split: if_splits option.splits)
  have "s = m1 @ r1" using match_lit_append [OF 1] by simp
  moreover have "dropWhile is_space r1 = m2 @ r" using match_lit_append [OF 2] by simp
  moreover have "r1 = takeWhile is_space r1 @ dropWhile is_space r1" by simp
  ultimately have "s = m @ r" using 3 by (metis append.assoc)
  moreover have "alt_nonempty a \<longrightarrow> m \<noteq> []"
    using Phrase 3 match_lit_append [OF 1] by (auto simp: alt_nonempty_def js_def)
  ultimately show ?thesis by simp
qed

lemma first_alt_append:
  "first_alt prev as s = Some (m, r) \<Longrightarrow> list_all alt_nonempty as \<Longrightarrow> s = m @ r \<and> m \<noteq> []"
proof (induction as)
  case Nil
  then show ?case by simp
next
  case (Cons a as)
  show ?case
  proof (cases "match_alt prev a s")
    case None
    with Cons show ?thesis by simp
  next
    case (Some mr)
    obtain m' r' where mr: "mr = (m', r')" by (cases mr)
    show ?thesis
    proof (cases "word_boundary (before_rest prev m') r'")
      case True
      with Some mr Cons.prems have "m' = m" "r' = r" by simp_all
      with Some mr Cons.prems(2) match_alt_append [of prev a s m r] show ?thesis by simp
    next
      case False
      with Some mr Cons show ?thesis by simp
    qed
  qed
qed

lemma alternatives_nonempty: "list_all alt_nonempty alternatives"
  by (simp add: alternatives_def alt_nonempty_def)

lemma sql_match_append: "sql_match prev s = Some (m, r) \<Longrightarrow> s = m @ r \<and> m \<noteq> []"
  using first_alt_append [OF _ alternatives_nonempty, of prev s m r]
  by (simp add: sql_match_def split: if_splits)

lemma sql_match_length: "sql_match prev s = Some (m, r) \<Longrightarrow> length r < length s"
  by (drule sql_match_append) auto

text \<open>
  \<^verbatim>\<open>input.replace(sqlInjectionRegex, (match) => ...)\<close>: the global replacement, as for
  the script pattern; the scan carries the character before the position, for \<open>\b\<close>.
\<close>

function sql_replace :: "jschar option \<Rightarrow> jsstring \<Rightarrow> jsstring" where
  "sql_replace prev [] = []"
| "sql_replace prev (c # cs) =
     (case sql_match prev (c # cs) of
        Some (m, rest) \<Rightarrow> escape_match m @ sql_replace (before_rest prev m) rest
      | None \<Rightarrow> c # sql_replace (Some c) cs)"
  by pat_completeness auto
termination
  by (relation "measure (\<lambda>(prev, s). length s)") (auto dest: sql_match_length)

definition isSqlInjection :: "jsstring \<Rightarrow> jsstring" where
  "isSqlInjection input = sql_replace None input"

section \<open>Values\<close>

text \<open>
  The values the validators receive: the primitives, functions, arrays and plain objects.
  A number is \<open>NaN\<close>, an infinity, the negative zero or a finite value (the code never
  computes with a number it is given, it only classifies it). A function is one of the
  built-in constructors the source names, or a user-defined class or constructor function
  (with the ordinary \<open>prototype\<close> object). An array is the list of its elements. A plain
  object is the list of its own enumerable properties, in the order in which \<open>for-in\<close> and
  \<open>Object.entries\<close> visit them, each name once.
\<close>

datatype js_number = NaN | Infinity bool | NegZero | Finite rat

datatype func =
  ObjectCtor | ArrayCtor | StringCtor | NumberCtor | BooleanCtor | FunctionCtor | UserFn nat

datatype jsval =
    Undefined
  | Null
  | Bool bool
  | Num js_number
  | BigInt int
  | Str jsstring
  | Symbol nat
  | Fn func
  | Arr "jsval list"
  | Obj "(jsstring \<times> jsval) list"

fun typeof :: "jsval \<Rightarrow> jsstring" where
  "typeof Undefined = js ''undefined''"
| "typeof Null = js ''object''"
| "typeof (Bool b) = js ''boolean''"
| "typeof (Num n) = js ''number''"
| "typeof (BigInt i) = js ''bigint''"
| "typeof (Str s) = js ''string''"
| "typeof (Symbol n) = js ''symbol''"
| "typeof (Fn f) = js ''function''"
| "typeof (Arr xs) = js ''object''"
| "typeof (Obj fs) = js ''object''"

fun isArray :: "jsval \<Rightarrow> bool" where
  "isArray (Arr xs) = True"
| "isArray _ = False"

text \<open>\<open>!v\<close>: the values that convert to \<open>false\<close>.\<close>

fun falsy :: "jsval \<Rightarrow> bool" where
  "falsy Undefined = True"
| "falsy Null = True"
| "falsy (Bool b) = (\<not> b)"
| "falsy (Num n) = (n = NaN \<or> n = NegZero \<or> n = Finite 0)"
| "falsy (BigInt i) = (i = 0)"
| "falsy (Str s) = (s = [])"
| "falsy _ = False"

text \<open>\<open>v === 0\<close>: both zeros are strictly equal to \<open>0\<close>, \<open>NaN\<close> and \<open>0n\<close> are not.\<close>

fun is_zero :: "jsval \<Rightarrow> bool" where
  "is_zero (Num n) = (n = NegZero \<or> n = Finite 0)"
| "is_zero _ = False"

text \<open>Decimal digits of a loop index or a depth counter inside a template literal.\<close>

fun show_nat :: "nat \<Rightarrow> jsstring" where
  "show_nat n =
     (if n < 10 then [js ''0123456789'' ! n]
      else show_nat (n div 10) @ [js ''0123456789'' ! (n mod 10)])"

declare show_nat.simps [simp del]

text \<open>
  The own properties of an object value, by name. An array owns its indices (written in
  decimal) and \<open>length\<close>.
\<close>

fun own_property :: "jsval \<Rightarrow> jsstring \<Rightarrow> jsval option" where
  "own_property (Obj fs) k = map_of fs k"
| "own_property (Arr xs) k =
     (if k = js ''length'' then Some (Num (Finite (of_nat (length xs))))
      else map_of (map (\<lambda>i. (show_nat i, xs ! i)) [0..<length xs]) k)"
| "own_property _ k = None"

text \<open>
  \<open>x[key]\<close>, which the source reads only where \<open>x\<close> owns \<open>key\<close>; a name that is not
  there reads as \<open>undefined\<close>.
\<close>

definition get_property :: "jsval \<Rightarrow> jsstring \<Rightarrow> jsval" where
  "get_property x key = (case own_property x key of Some v \<Rightarrow> v | None \<Rightarrow> Undefined)"

section \<open>The structural matcher \<open>validateByStructure\<close>\<close>

text \<open>
  What a call does: it returns nothing (\<open>Valid\<close>), it returns \<open>new Error(message)\<close>, or it
  does not return. \<open>x.hasOwnProperty(key)\<close> looks \<open>hasOwnProperty\<close> up on \<open>x\<close> first: an own
  property of that name hides the inherited method. When its value is not a function the
  call raises a \<open>TypeError\<close>; when it is, that function runs in place of the method and
  the model stops there (\<open>Calls\<close>).
\<close>

datatype outcome = Valid | Failure jsstring | TypeError | Calls func

datatype 'a method_call = Returned 'a | Raised | Called func

definition hasOwnProperty :: "jsval \<Rightarrow> jsstring \<Rightarrow> bool method_call" where
  "hasOwnProperty x key =
     (case own_property x (js ''hasOwnProperty'') of
        None \<Rightarrow> Returned (own_property x key \<noteq> None)
      | Some (Fn f) \<Rightarrow> Called f
      | Some _ \<Rightarrow> Raised)"

definition expected_type :: "jsstring \<Rightarrow> jsstring \<Rightarrow> jsval \<Rightarrow> jsstring" where
  "expected_type structure path arg =
     js ''Expected type '' @ structure @ js '' at path \"'' @ path @ js ''\", but got ''
     @ typeof arg"

definition expected_array :: "jsstring \<Rightarrow> jsval \<Rightarrow> jsstring" where
  "expected_array path arg =
     js ''Expected an array at path \"'' @ path @ js ''\", but got '' @ typeof arg"

definition expected_object :: "jsstring \<Rightarrow> jsval \<Rightarrow> jsstring" where
  "expected_object path arg =
     js ''Expected an object at path \"'' @ path @ js ''\", but got '' @ typeof arg"

definition missing_key :: "jsstring \<Rightarrow> jsstring \<Rightarrow> jsstring" where
  "missing_key key path =
     js ''Missing key \"'' @ key @ js ''\" at path \"'' @ path @ js ''\"''"

definition unknown_structure :: "jsstring \<Rightarrow> jsstring" where
  "unknown_structure path = js ''Unknown structure type at path \"'' @ path @ js ''\"''"

text \<open>
  The branches follow the source: \<open>typeof structure === "string"\<close>, then
  \<open>Array.isArray(structure)\<close>, then \<open>typeof structure === "object"\<close>, which holds of an
  object and of \<open>null\<close> (\<open>for-in\<close> over \<open>null\<close> visits nothing), then the rest.
  \<open>array_outer\<close> is the loop over \<open>i\<close> (the shapes still to come), \<open>array_inner\<close> the loop
  over \<open>j\<close> (the elements still to come and the index of the next one), \<open>object_loop\<close> the
  loop over the keys of the structure.
\<close>

function (sequential) validateByStructure :: "jsval \<Rightarrow> jsval \<Rightarrow> jsstring \<Rightarrow> outcome"
  and array_outer :: "jsval list \<Rightarrow> jsval list \<Rightarrow> jsstring \<Rightarrow> outcome"
  and array_inner :: "jsval \<Rightarrow> jsval list \<Rightarrow> nat \<Rightarrow> jsstring \<Rightarrow> outcome"
  and object_loop ::
    "(jsstring \<times> jsval) list \<Rightarrow> (jsstring \<times> jsval) list \<Rightarrow> jsval \<Rightarrow> jsstring \<Rightarrow> outcome"
where
  "validateByStructure (Str structure) arg path =
     (if typeof arg \<noteq> structure then Failure (expected_type structure path arg) else Valid)"
| "validateByStructure (Arr structure) arg path =
     (case arg of
        Arr items \<Rightarrow> array_outer structure items path
      | _ \<Rightarrow> Failure (expected_array path arg))"
| "validateByStructure (Obj structure) arg path =
     (if typeof arg \<noteq> js ''object'' \<or> arg = Null then Failure (expected_object path arg)
      else object_loop structure structure arg path)"
| "validateByStructure Null arg path =
     (if typeof arg \<noteq> js ''object'' \<or> arg = Null then Failure (expected_object path arg)
      else Valid)"
| "validateByStructure _ arg path = Failure (unknown_structure path)"
| "array_outer [] items path = Valid"
| "array_outer (s # ss) items path =
     (case array_inner s items 0 path of
        Valid \<Rightarrow> array_outer ss items path
      | error \<Rightarrow> error)"
| "array_inner s [] j path = Valid"
| "array_inner s (x # xs) j path =
     (case validateByStructure s x (path @ js ''['' @ show_nat j @ js '']'') of
        Valid \<Rightarrow> array_inner s xs (Suc j) path
      | error \<Rightarrow> error)"
| "object_loop [] structure arg path = Valid"
| "object_loop ((key, s) # rest) structure arg path =
     (case hasOwnProperty (Obj structure) key of
        Raised \<Rightarrow> TypeError
      | Called f \<Rightarrow> Calls f
      | Returned False \<Rightarrow> object_loop rest structure arg path
      | Returned True \<Rightarrow>
          (case hasOwnProperty arg key of
             Raised \<Rightarrow> TypeError
           | Called f \<Rightarrow> Calls f
           | Returned False \<Rightarrow> Failure (missing_key key path)
           | Returned True \<Rightarrow>
               (case validateByStructure s (get_property arg key) (path @ js ''.'' @ key) of
                  Valid \<Rightarrow> object_loop rest structure arg path
                | error \<Rightarrow> error)))"
  by pat_completeness auto
termination
  by (relation "inv_image (less_than <*lex*> less_than) (\<lambda>x. case x of
        Inl (Inl (structure, arg, path)) \<Rightarrow> (size structure, 0)
      | Inl (Inr (ss, items, path)) \<Rightarrow> (size_list size ss, 0)
      | Inr (Inl (s, xs, j, path)) \<Rightarrow> (size s, Suc (length xs))
      | Inr (Inr (rest, structure, arg, path)) \<Rightarrow>
          (size_list (size_prod (\<lambda>_. 0) size) rest, 0))")
    auto

section \<open>The type guard \<open>validateType\<close>\<close>

text \<open>
  \<open>v instanceof f\<close> on the values of the model: a primitive is an instance of nothing, a
  plain object of \<open>Object\<close>, an array of \<open>Array\<close> and \<open>Object\<close>, a function of \<open>Function\<close>
  and \<open>Object\<close>.
\<close>

fun instanceof :: "jsval \<Rightarrow> func \<Rightarrow> bool" where
  "instanceof (Obj fs) f = (f = ObjectCtor)"
| "instanceof (Arr xs) f = (f = ArrayCtor \<or> f = ObjectCtor)"
| "instanceof (Fn g) f = (f = FunctionCtor \<or> f = ObjectCtor)"
| "instanceof _ f = False"

text \<open>
  The message of \<open>validateType\<close> substitutes arbitrary values into a template literal, and
  each substitution converts its value to a string first. The conversion can fail, and
  then no \<open>Error\<close> is built: the \<open>throw\<close> statement raises what the conversion raised.
  \<open>to_string\<close> says how the conversion of a value ends. A symbol raises a \<open>TypeError\<close>. An
  array joins the conversions of its elements, with \<open>null\<close> and \<open>undefined\<close> as the empty
  string. A plain object uses the inherited \<open>toString\<close>, unless it has an own property of
  that name: an own property that is not a function is skipped, \<open>valueOf\<close> is tried next
  (the inherited one returns the object itself) and a \<open>TypeError\<close> is raised when neither
  gives a primitive; when an own \<open>toString\<close> or \<open>valueOf\<close> is a function, that function
  runs and the model stops there (\<open>Invokes\<close>). Every other value has a text.
\<close>

datatype conversion = Converted | Throws | Invokes func

function (sequential) to_string :: "jsval \<Rightarrow> conversion"
  and join_elements :: "jsval list \<Rightarrow> conversion"
where
  "to_string (Symbol n) = Throws"
| "to_string (Arr xs) = join_elements xs"
| "to_string (Obj fs) =
     (case map_of fs (js ''toString'') of
        None \<Rightarrow> Converted
      | Some (Fn f) \<Rightarrow> Invokes f
      | Some _ \<Rightarrow>
          (case map_of fs (js ''valueOf'') of
             Some (Fn f) \<Rightarrow> Invokes f
           | _ \<Rightarrow> Throws))"
| "to_string _ = Converted"
| "join_elements [] = Converted"
| "join_elements (x # xs) =
     (if x = Null \<or> x = Undefined then join_elements xs
      else case to_string x of
        Converted \<Rightarrow> join_elements xs
      | failed \<Rightarrow> failed)"
  by pat_completeness auto
termination
  by (relation "measure (\<lambda>x. case x of Inl v \<Rightarrow> size v | Inr xs \<Rightarrow> size_list size xs)") auto

text \<open>
  The text of the message is kept as the pieces of the template, with the substituted
  values in place of their texts (a string is its own text, \<open>null\<close> is \<open>null\<close>).
  \<open>typeof value\<close> is substituted as the string it is.
\<close>

datatype part = Lit jsstring | Interp jsval

definition type_mismatch :: "jsval \<Rightarrow> jsval \<Rightarrow> part list" where
  "type_mismatch a b = [Lit (js ''Type of ''), Interp a, Lit (js '' does not match ''), Interp b]"

text \<open>
  What \<open>validateType\<close> raises: the \<open>Error\<close> with its message, the \<open>TypeError\<close> of a failed
  conversion, or the stop at a function of the value.
  \<^verbatim>\<open>throw new Error(`Type of ${a} does not match ${b}`)\<close> converts \<open>a\<close>, then \<open>b\<close>.
\<close>

datatype thrown = Error "part list" | TypeErrorRaised | Invoked func

definition throw_mismatch :: "jsval \<Rightarrow> jsval \<Rightarrow> thrown" where
  "throw_mismatch a b =
     (case to_string a of
        Throws \<Rightarrow> TypeErrorRaised
      | Invokes f \<Rightarrow> Invoked f
      | Converted \<Rightarrow>
          (case to_string b of
             Throws \<Rightarrow> TypeErrorRaised
           | Invokes f \<Rightarrow> Invoked f
           | Converted \<Rightarrow> Error (type_mismatch a b)))"

definition validateType :: "jsval \<Rightarrow> jsval \<Rightarrow> thrown + unit" where
  "validateType ty v =
     (if ty = Null \<or> v = Null then
        (if ty \<noteq> v then Inl (throw_mismatch ty v) else Inr ())
      else if ty = Fn ObjectCtor then
        (if v \<noteq> Null \<and> typeof v = js ''object'' \<and> \<not> isArray v then Inr ()
         else Inl (throw_mismatch ty v))
      else if ty = Fn ArrayCtor then
        (if isArray v then Inr () else Inl (throw_mismatch ty v))
      else if typeof ty = js ''function'' then
        (if (case ty of Fn f \<Rightarrow> instanceof v f | _ \<Rightarrow> False) then Inr ()
         else if ty = Fn StringCtor \<and> typeof v = js ''string'' then Inr ()
         else if ty = Fn NumberCtor \<and> typeof v = js ''number'' then Inr ()
         else if ty = Fn BooleanCtor \<and> typeof v = js ''boolean'' then Inr ()
         else Inl (throw_mismatch ty (Str (typeof v))))
      else
        (if typeof ty = typeof v then Inr ()
         else if isArray ty \<and> isArray v then Inr ()
         else Inl (throw_mismatch ty (Str (typeof v)))))"

section \<open>\<open>validatePassword\<close>\<close>

text \<open>
  \<^verbatim>\<open>/^(?=.*[a-z])(?=.*[A-Z])(?=.*\d)(?=.*[@$!%*?&])[A-Za-z\d@$!%*?&]{8,128}$/\<close>

  A lookahead \<open>(?=.*[C])\<close> at the start holds when a character of the class \<open>C\<close> can be
  reached over characters that \<open>.\<close> accepts, that is, before the first line terminator.
  Between \<open>^\<close> and \<open>$\<close> the bounded repetition has to take the whole input.
\<close>

definition is_lower :: "jschar \<Rightarrow> bool" where
  "is_lower c = (0x61 \<le> c \<and> c \<le> 0x7A)"

definition is_upper :: "jschar \<Rightarrow> bool" where
  "is_upper c = (0x41 \<le> c \<and> c \<le> 0x5A)"

definition is_digit :: "jschar \<Rightarrow> bool" where
  "is_digit c = (0x30 \<le> c \<and> c \<le> 0x39)"

definition is_special :: "jschar \<Rightarrow> bool" where
  "is_special c = (c \<in> set (js ''@$!%*?&''))"

definition line_terminator :: "jschar \<Rightarrow> bool" where
  "line_terminator c = (c \<in> set [0x0A, 0x0D, 0x2028, 0x2029])"

definition lookahead :: "(jschar \<Rightarrow> bool) \<Rightarrow> jsstring \<Rightarrow> bool" where
  "lookahead C s = list_ex C (takeWhile (\<lambda>c. \<not> line_terminator c) s)"

definition allowed :: "jschar \<Rightarrow> bool" where
  "allowed c = (is_upper c \<or> is_lower c \<or> is_digit c \<or> is_special c)"

definition passwordRegex :: "jsstring \<Rightarrow> bool" where
  "passwordRegex s =
     (lookahead is_lower s \<and> lookahead is_upper s \<and> lookahead is_digit s
      \<and> lookahead is_special s
      \<and> list_all allowed s \<and> 8 \<le> length s \<and> length s \<le> 128)"

text \<open>The two bounds are integers here; a template literal prints them in decimal.\<close>

definition show_int :: "int \<Rightarrow> jsstring" where
  "show_int i = (if i < 0 then js ''-'' @ show_nat (nat (- i)) else show_nat (nat i))"

definition password_too_short :: "int \<Rightarrow> jsstring" where
  "password_too_short n =
     js ''Password must be at least '' @ show_int n @ js '' characters long.''"

definition password_too_long :: "int \<Rightarrow> jsstring" where
  "password_too_long n = js ''Password must not exceed '' @ show_int n @ js '' characters.''"

definition password_weak :: jsstring where
  "password_weak =
     js ''Password must contain at least one lowercase letter, one uppercase letter, one number, and one special character.''"

definition validatePassword :: "jsstring \<Rightarrow> int \<Rightarrow> int \<Rightarrow> jsstring + unit" where
  "validatePassword password possiblePasswordMinLength possiblePasswordLength =
     (if int (length password) < possiblePasswordMinLength then
        Inl (password_too_short possiblePasswordMinLength)
      else if int (length password) > possiblePasswordLength then
        Inl (password_too_long possiblePasswordLength)
      else if \<not> passwordRegex password then Inl password_weak
      else Inr ())"

section \<open>\<open>validateNonEmptyFields\<close>\<close>

text \<open>\<^verbatim>\<open>value === null || value === undefined || value === ""\<close>\<close>

definition is_blank :: "jsval \<Rightarrow> bool" where
  "is_blank v = (v = Null \<or> v = Undefined \<or> v = Str [])"

definition field_blank :: "jsstring \<Rightarrow> nat \<Rightarrow> jsstring" where
  "field_blank key currentDepth =
     js ''Field \"'' @ key @ js ''\" cannot be null, undefined, or empty at depth ''
     @ show_nat currentDepth @ js ''.''"

definition value_blank :: "nat \<Rightarrow> jsstring" where
  "value_blank currentDepth =
     js ''Value cannot be null, undefined, or empty at depth '' @ show_nat currentDepth
     @ js ''.''"

text \<open>
  The two depths are natural numbers. \<open>forEach_item\<close> is \<open>data.forEach\<close> over the elements
  still to come, \<open>forEach_entry\<close> is \<open>Object.entries(data).forEach\<close>; an exception leaves
  the loop.
\<close>

function (sequential) validateNonEmptyFields :: "jsval \<Rightarrow> nat \<Rightarrow> nat \<Rightarrow> jsstring + unit"
  and forEach_item :: "jsval list \<Rightarrow> nat \<Rightarrow> nat \<Rightarrow> jsstring + unit"
  and forEach_entry :: "(jsstring \<times> jsval) list \<Rightarrow> nat \<Rightarrow> nat \<Rightarrow> jsstring + unit"
where
  "validateNonEmptyFields (Arr items) depth currentDepth =
     (if currentDepth \<ge> depth then Inr ()
      else forEach_item items depth currentDepth)"
| "validateNonEmptyFields (Obj entries) depth currentDepth =
     (if currentDepth \<ge> depth then Inr ()
      else forEach_entry entries depth currentDepth)"
| "validateNonEmptyFields data depth currentDepth =
     (if currentDepth \<ge> depth then Inr ()
      else if is_blank data then Inl (value_blank currentDepth)
      else Inr ())"
| "forEach_item [] depth currentDepth = Inr ()"
| "forEach_item (item # items) depth currentDepth =
     (case validateNonEmptyFields item depth (currentDepth + 1) of
        Inl e \<Rightarrow> Inl e
      | Inr _ \<Rightarrow> forEach_item items depth currentDepth)"
| "forEach_entry [] depth currentDepth = Inr ()"
| "forEach_entry ((key, v) # entries) depth currentDepth =
     (if is_blank v then Inl (field_blank key currentDepth)
      else if typeof v = js ''object'' \<or> isArray v then
        (case validateNonEmptyFields v depth (currentDepth + 1) of
           Inl e \<Rightarrow> Inl e
         | Inr _ \<Rightarrow> forEach_entry entries depth currentDepth)
      else forEach_entry entries depth currentDepth)"
  by pat_completeness auto
termination
  by (relation "measure (\<lambda>x. case x of
        Inl (data, depth, currentDepth) \<Rightarrow> size data
      | Inr (Inl (items, depth, currentDepth)) \<Rightarrow> size_list size items
      | Inr (Inr (entries, depth, currentDepth)) \<Rightarrow> size_list (size_prod (\<lambda>_. 0) size) entries)")
    auto

section \<open>\<open>isNull\<close>\<close>

text \<open>\<open>value.length\<close> of an array and \<open>Object.keys(value)\<close>.\<close>

fun array_length :: "jsval \<Rightarrow> nat" where
  "array_length (Arr xs) = length xs"
| "array_length _ = 0"

fun object_keys :: "jsval \<Rightarrow> jsstring list" where
  "object_keys (Obj fs) = map fst fs"
| "object_keys (Arr xs) = map show_nat [0..<length xs]"
| "object_keys _ = []"

definition isNull :: "jsval \<Rightarrow> jsstring + unit" where
  "isNull v =
     (if falsy v \<and> \<not> is_zero v \<and> v \<noteq> Bool False then
        Inl (js ''Value is null, undefined, or falsy'')
      else if typeof v = js ''object'' \<and> v \<noteq> Null then
        (if isArray v \<and> array_length v = 0 then Inl (js ''Value is an empty array'')
         else if \<not> isArray v \<and> length (object_keys v) = 0 then
           Inl (if instanceof v ObjectCtor then js ''Value is an empty class instance''
                else js ''Value is an empty object'')
         else Inr ())
      else if typeof v = js ''string'' \<or> typeof v = js ''number'' \<or> typeof v = js ''bigint''
      then (if falsy v \<and> \<not> is_zero v then Inl (js ''Value is empty'') else Inr ())
      else Inl (js ''Invalid value type''))"

section \<open>The SQL escaping, token by token\<close>

text \<open>
  A second description of what \<open>isSqlInjection\<close> does, to compare with the one above: the
  five comment and terminator tokens, and nothing else, are rewritten, and a token only
  where it stands directly between two word characters. \<open>find_token\<close> looks for the first
  of the tokens that starts the input and has a word character right after it;
  \<open>bounded_token\<close> asks for a word character right before it as well; \<open>escape_bounded\<close>
  scans the input, escapes such a token and copies every other character.
\<close>

definition punct_tokens :: "string list" where
  "punct_tokens = [''--'', ''/*'', ''*/'', ''#'', '';'']"

fun find_token :: "string list \<Rightarrow> jsstring \<Rightarrow> (jsstring \<times> jsstring) option" where
  "find_token [] s = None"
| "find_token (t # ts) s =
     (if take (length t) s = js t
         \<and> (case drop (length t) s of [] \<Rightarrow> False | b # _ \<Rightarrow> is_word b)
      then Some (js t, drop (length t) s)
      else find_token ts s)"

definition bounded_token :: "jschar option \<Rightarrow> jsstring \<Rightarrow> (jsstring \<times> jsstring) option" where
  "bounded_token prev s =
     (case prev of
        None \<Rightarrow> None
      | Some a \<Rightarrow> if is_word a then find_token punct_tokens s else None)"

lemma find_token_sound:
  "find_token ts s = Some (m, r) \<Longrightarrow>
   \<exists>t \<in> set ts. m = js t \<and> s = m @ r \<and> (\<exists>b r'. r = b # r' \<and> is_word b)"
proof (induction ts)
  case Nil
  then show ?case by simp
next
  case (Cons t ts)
  show ?case
  proof (cases "take (length t) s = js t
         \<and> (case drop (length t) s of [] \<Rightarrow> False | b # _ \<Rightarrow> is_word b)")
    case True
    with Cons.prems have m: "m = js t" and r: "r = drop (length t) s" by simp_all
    from True have "s = js t @ drop (length t) s" by (metis append_take_drop_id)
    moreover from True r obtain b r' where "r = b # r'" "is_word b"
      by (auto split: list.splits)
    ultimately show ?thesis using m r by auto
  next
    case False
    with Cons.prems have "find_token ts s = Some (m, r)" by auto
    from Cons.IH [OF this] show ?thesis by auto
  qed
qed

lemma find_token_complete:
  "t \<in> set ts \<Longrightarrow> is_word b \<Longrightarrow> find_token ts (js t @ b # r) \<noteq> None"
  by (induction ts) (auto simp: js_def)

lemma bounded_token_length: "bounded_token prev s = Some (m, r) \<Longrightarrow> length r < length s"
proof -
  assume "bounded_token prev s = Some (m, r)"
  then have "find_token punct_tokens s = Some (m, r)"
    by (auto simp: bounded_token_def split: option.splits if_splits)
  from find_token_sound [OF this] show ?thesis
    by (auto simp: punct_tokens_def js_def)
qed

function escape_bounded :: "jschar option \<Rightarrow> jsstring \<Rightarrow> jsstring" where
  "escape_bounded prev [] = []"
| "escape_bounded prev (c # cs) =
     (case bounded_token prev (c # cs) of
        Some (m, rest) \<Rightarrow> escape_match m @ escape_bounded (before_rest prev m) rest
      | None \<Rightarrow> c # escape_bounded (Some c) cs)"
  by pat_completeness auto
termination
  by (relation "measure (\<lambda>(prev, s). length s)") (auto dest: bounded_token_length)

text \<open>An alternative of the pattern that is spelled with capital letters only.\<close>

definition word_alt :: "alt \<Rightarrow> bool" where
  "word_alt a =
     (case a of
        Token k \<Rightarrow> list_all (\<lambda>c. is_upper (of_char c)) k
      | Phrase k1 k2 \<Rightarrow>
          list_all (\<lambda>c. is_upper (of_char c)) k1 \<and> list_all (\<lambda>c. is_upper (of_char c)) k2)"

section \<open>Structural conformance\<close>

text \<open>
  What it means for a subject to conform to a shape, in the words of the specification:
  the runtime type of a primitive leaf is its type tag; the subject of an array shape is
  an array each of whose elements conforms to each declared element shape; the subject of
  an object shape is an object that has every declared field, with a conforming value.
  Fields the shape does not declare are not looked at.
\<close>

fun conforms :: "jsval \<Rightarrow> jsval \<Rightarrow> bool" where
  "conforms (Str tag) v = (typeof v = tag)"
| "conforms (Arr shapes) v =
     (case v of
        Arr items \<Rightarrow> list_all (\<lambda>s. list_all (conforms s) items) shapes
      | _ \<Rightarrow> False)"
| "conforms (Obj fields) v =
     (typeof v = js ''object'' \<and> v \<noteq> Null
      \<and> list_all (\<lambda>f. case own_property v (fst f) of
                           None \<Rightarrow> False
                         | Some x \<Rightarrow> conforms (snd f) x) fields)"
| "conforms _ v = False"

text \<open>
  No object inside the value, at any depth, has an own property named \<open>hasOwnProperty\<close>.
\<close>

fun no_shadow :: "jsval \<Rightarrow> bool" where
  "no_shadow (Arr xs) = list_all no_shadow xs"
| "no_shadow (Obj fs) =
     (map_of fs (js ''hasOwnProperty'') = None \<and> list_all (\<lambda>f. no_shadow (snd f)) fs)"
| "no_shadow _ = True"

section \<open>Blank fields within a depth\<close>

text \<open>
  \<open>blank_within k data\<close>: some \<open>null\<close>, \<open>undefined\<close> or empty-string field of \<open>data\<close> is
  reached at a recursion depth less than \<open>k\<close>, counted from \<open>data\<close>. The fields of an
  object are looked at by the call on the object, the elements of an array by the
  recursive calls on them, one level further down.
\<close>

fun blank_within :: "nat \<Rightarrow> jsval \<Rightarrow> bool" where
  "blank_within 0 v = False"
| "blank_within (Suc k) (Arr items) = list_ex (blank_within k) items"
| "blank_within (Suc k) (Obj entries) =
     list_ex (\<lambda>e. is_blank (snd e) \<or> blank_within k (snd e)) entries"
| "blank_within (Suc k) v = is_blank v"

text \<open>A value inside \<open>n\<close> nested objects \<open>{a: ...}\<close>.\<close>

fun nest :: "nat \<Rightarrow> jsval \<Rightarrow> jsval" where
  "nest 0 v = v"
| "nest (Suc n) v = Obj [(js ''a'', nest n v)]"

section \<open>Loops with an early return\<close>

text \<open>
  The first outcome in a list of outcomes that is not \<open>Valid\<close>, and \<open>Valid\<close> when there is
  none: what a loop returns that leaves at the first error. \<open>element_path\<close> is the path
  of the element at an index.
\<close>

definition first_outcome :: "outcome list \<Rightarrow> outcome" where
  "first_outcome os = (case dropWhile (\<lambda>oc. oc = Valid) os of [] \<Rightarrow> Valid | oc # _ \<Rightarrow> oc)"

definition element_path :: "jsstring \<Rightarrow> nat \<Rightarrow> jsstring" where
  "element_path path j = path @ js ''['' @ show_nat j @ js '']''"

text \<open>
  The same for the loops of \<open>validateNonEmptyFields\<close>, whose calls either return or raise
  an \<open>Error\<close> with a message: the first result in a list that is a failure, and no
  failure when there is none.
\<close>

definition first_failure :: "(jsstring + unit) list \<Rightarrow> jsstring + unit" where
  "first_failure rs = (case dropWhile (\<lambda>r. r = Inr ()) rs of [] \<Rightarrow> Inr () | r # _ \<Rightarrow> r)"

section \<open>Properties of the HTML sanitizer\<close>

lemma escape_char_clean: "set (escape_char c) \<inter> set (js ''<'>\"'') = {}"
  by (simp add: escape_char_def js_def)

lemma escapeHtml_clean: "set (escapeHtml s) \<inter> set (js ''<'>\"'') = {}"
  using escape_char_clean by (fastforce simp: escapeHtml_def)

text \<open>
  C10. For every input, the string \<open>isJsScript\<close> returns holds none of the characters
  \<open><\<close>, \<open>>\<close>, the double quote and the single quote: the result is the text left by the
  script-stripping phase with each character replaced by \<open>escape_char\<close> of it, which
  turns those four into \<open>&lt;\<close>, \<open>&gt;\<close>, \<open>&quot;\<close> and \<open>&#39;\<close>, and no replacement holds
  one of the four.
\<close>

theorem isJsScript_no_markup:
  "isJsScript input = concat (map escape_char (replace_script input))
   \<and> escape_char (of_char CHR ''<'') = js ''&lt;''
   \<and> escape_char (of_char CHR ''>'') = js ''&gt;''
   \<and> escape_char (of_char CHR 0x22) = js ''&quot;''
   \<and> escape_char (of_char CHR 0x27) = js ''&#39;''
   \<and> set (escape_char c) \<inter> set (js ''<'>\"'') = {}
   \<and> set (isJsScript input) \<inter> set (js ''<'>\"'') = {}"
proof -
  have "isJsScript input = concat (map escape_char (replace_script input))"
    by (simp add: isJsScript_def escapeHtml_def)
  moreover have "escape_char (of_char CHR ''<'') = js ''&lt;''"
    "escape_char (of_char CHR ''>'') = js ''&gt;''"
    "escape_char (of_char CHR 0x22) = js ''&quot;''"
    "escape_char (of_char CHR 0x27) = js ''&#39;''"
    by (simp_all add: escape_char_def)
  moreover have "set (isJsScript input) \<inter> set (js ''<'>\"'') = {}"
    unfolding isJsScript_def by (rule escapeHtml_clean)
  ultimately show ?thesis using escape_char_clean by simp
qed

lemma match_script_head: "match_script (c # cs) = Some mr \<Longrightarrow> c = of_char CHR ''<''"
  by (auto simp: match_script_def open_tag_def match_lit_def js_def canon_def
      split: option.splits if_splits)

lemma replace_script_no_tag: "of_char CHR ''<'' \<notin> set s \<Longrightarrow> replace_script s = s"
proof (induction s)
  case Nil
  then show ?case by simp
next
  case (Cons c cs)
  have "match_script (c # cs) = None"
  proof (cases "match_script (c # cs)")
    case (Some mr)
    from match_script_head [OF this] Cons.prems show ?thesis by simp
  qed simp
  with Cons show ?case by simp
qed

lemma escape_char_fixed: "c \<notin> set (js ''&<'>\"'') \<Longrightarrow> escape_char c = [c]"
  by (simp add: escape_char_def js_def)

lemma escape_char_amp: "c \<in> set (js ''&<'>\"'') \<Longrightarrow> of_char CHR ''&'' \<in> set (escape_char c)"
  by (auto simp: escape_char_def js_def)

lemma escape_char_length: "c \<in> set (js ''&<'>\"'') \<Longrightarrow> 1 < length (escape_char c)"
  by (auto simp: escape_char_def js_def)

lemma escape_char_length_ge: "1 \<le> length (escape_char c)"
  by (auto simp: escape_char_def js_def)

lemma escapeHtml_length: "length s \<le> length (escapeHtml s)"
proof (induction s)
  case (Cons c cs)
  then show ?case using escape_char_length_ge [of c] by (simp add: escapeHtml_def)
qed (simp add: escapeHtml_def)

lemma escapeHtml_longer:
  "set s \<inter> set (js ''&<'>\"'') \<noteq> {} \<Longrightarrow> length s < length (escapeHtml s)"
proof (induction s)
  case Nil
  then show ?case by simp
next
  case (Cons c cs)
  show ?case
  proof (cases "c \<in> set (js ''&<'>\"'')")
    case True
    from escape_char_length [OF this] escapeHtml_length [of cs]
    show ?thesis by (simp add: escapeHtml_def)
  next
    case False
    with Cons.prems have "set cs \<inter> set (js ''&<'>\"'') \<noteq> {}" by auto
    from Cons.IH [OF this] escape_char_length_ge [of c]
    show ?thesis by (simp add: escapeHtml_def)
  qed
qed

lemma escapeHtml_plain: "set s \<inter> set (js ''&<'>\"'') = {} \<Longrightarrow> escapeHtml s = s"
proof (induction s)
  case (Cons c cs)
  then have "c \<notin> set (js ''&<'>\"'')" "set cs \<inter> set (js ''&<'>\"'') = {}" by auto
  with Cons.IH escape_char_fixed [of c] show ?case by (simp add: escapeHtml_def)
qed (simp add: escapeHtml_def)

lemma escapeHtml_fixed_iff: "escapeHtml s = s \<longleftrightarrow> set s \<inter> set (js ''&<'>\"'') = {}"
  using escapeHtml_longer [of s] escapeHtml_plain [of s] by force

lemma escapeHtml_amp:
  "set s \<inter> set (js ''&<'>\"'') \<noteq> {} \<Longrightarrow> of_char CHR ''&'' \<in> set (escapeHtml s)"
  using escape_char_amp by (fastforce simp: escapeHtml_def)

text \<open>
  C3 (as the code has it). Applying \<open>isJsScript\<close> to its own output changes nothing
  exactly when the text left by the script-stripping phase holds none of the five
  characters \<open>&\<close>, \<open><\<close>, \<open>>\<close>, double quote and single quote. Otherwise the output holds
  the \<open>&\<close> of an entity, and the second pass escapes it again.
\<close>

theorem isJsScript_idempotent_iff:
  "isJsScript (isJsScript s) = isJsScript s
   \<longleftrightarrow> set (replace_script s) \<inter> set (js ''&<'>\"'') = {}"
proof -
  let ?t = "replace_script s"
  let ?u = "escapeHtml ?t"
  have "of_char CHR ''<'' \<notin> set ?u"
    using escapeHtml_clean [of ?t] by (auto simp: js_def)
  then have "replace_script ?u = ?u" by (rule replace_script_no_tag)
  then have "isJsScript (isJsScript s) = escapeHtml ?u" by (simp add: isJsScript_def)
  then have "isJsScript (isJsScript s) = isJsScript s
             \<longleftrightarrow> set ?u \<inter> set (js ''&<'>\"'') = {}"
    by (simp add: isJsScript_def escapeHtml_fixed_iff)
  also have "\<dots> \<longleftrightarrow> set ?t \<inter> set (js ''&<'>\"'') = {}"
  proof
    assume "set ?u \<inter> set (js ''&<'>\"'') = {}"
    then have "of_char CHR ''&'' \<notin> set ?u" by (auto simp: js_def)
    with escapeHtml_amp [of ?t] show "set ?t \<inter> set (js ''&<'>\"'') = {}" by blast
  next
    assume "set ?t \<inter> set (js ''&<'>\"'') = {}"
    then show "set ?u \<inter> set (js ''&<'>\"'') = {}" by (simp add: escapeHtml_plain)
  qed
  finally show ?thesis .
qed

theorem isJsScript_idempotent_iff_witness:
  "isJsScript (isJsScript (js ''safe text'')) = isJsScript (js ''safe text'')"
proof -
  have "set (replace_script (js ''safe text'')) \<inter> set (js ''&<'>\"'') = {}"
    by code_simp
  then show ?thesis by (rule iffD2 [OF isJsScript_idempotent_iff])
qed

text \<open>
  C3 as stated fails: \<open><\<close> becomes \<open>&lt;\<close>, and \<open>&lt;\<close> becomes \<open>&amp;lt;\<close>.
\<close>

theorem isJsScript_not_idempotent:
  "isJsScript (js ''<'') = js ''&lt;''
   \<and> isJsScript (isJsScript (js ''<'')) = js ''&amp;lt;''
   \<and> isJsScript (isJsScript (js ''<'')) \<noteq> isJsScript (js ''<'')"
  by code_simp

section \<open>Properties of the SQL sanitizer\<close>

lemma alternatives_kinds_all:
  "list_all (\<lambda>a. word_alt a \<or> (\<exists>t \<in> set punct_tokens. a = Token t)) alternatives"
  by code_simp

lemma alternatives_kinds:
  "a \<in> set alternatives \<Longrightarrow> word_alt a \<or> (\<exists>t \<in> set punct_tokens. a = Token t)"
  using alternatives_kinds_all by (simp add: list_all_iff)

lemma canon_upper_not_punct: "is_upper (canon c) \<Longrightarrow> \<not> is_punct c"
  by (auto simp: canon_def is_upper_def is_punct_def js_def split: if_splits)

lemma canon_upper: "is_upper c \<Longrightarrow> canon c = c"
  by (auto simp: canon_def is_upper_def word_le_nat_alt)

lemma canon_punct: "is_punct p \<Longrightarrow> canon c = canon p \<Longrightarrow> c = p"
  by (auto simp: canon_def is_punct_def js_def split: if_splits)

lemma punct_not_word: "is_punct c \<Longrightarrow> \<not> is_word c"
  by (auto simp: is_punct_def is_word_def js_def)

lemma space_not_punct: "is_space c \<Longrightarrow> \<not> is_punct c"
  by (auto simp: is_punct_def is_space_def js_def)

lemma match_lit_canon: "match_lit p s = Some (m, r) \<Longrightarrow> map canon m = map canon p"
  by (auto simp: match_lit_def split: if_splits)

lemma match_lit_upper_no_punct:
  assumes "match_lit (js k) s = Some (m, r)" "list_all (\<lambda>c. is_upper (of_char c)) k"
    and "c \<in> set m"
  shows "\<not> is_punct c"
proof -
  from assms(1) have eq: "map canon m = map canon (js k)" by (rule match_lit_canon)
  from assms(3) have "canon c \<in> set (map canon m)" by simp
  with eq obtain x where x: "x \<in> set k" "canon c = canon (of_char x)"
    by (auto simp: js_def)
  with assms(2) have "is_upper (of_char x :: jschar)" by (simp add: list_all_iff)
  with x have "is_upper (canon c)" by (simp add: canon_upper)
  then show ?thesis by (rule canon_upper_not_punct)
qed

lemma match_alt_word_no_punct:
  assumes "match_alt prev a s = Some (m, r)" "word_alt a" "c \<in> set m"
  shows "\<not> is_punct c"
proof (cases a)
  case (Token k)
  with assms show ?thesis
    by (auto simp: word_alt_def dest: match_lit_upper_no_punct)
next
  case (Phrase k1 k2)
  with assms(1) obtain m1 r1 m2 where
    1: "match_lit (js k1) s = Some (m1, r1)" and
    2: "match_lit (js k2) (dropWhile is_space r1) = Some (m2, r)" and
    3: "m = m1 @ takeWhile is_space r1 @ m2"
    by (auto split: if_splits option.splits)
  from assms(3) 3 consider "c \<in> set m1" | "c \<in> set (takeWhile is_space r1)" | "c \<in> set m2"
    by auto
  then show ?thesis
  proof cases
    case 1
    with \<open>match_lit (js k1) s = Some (m1, r1)\<close> assms(2) Phrase show ?thesis
      by (auto simp: word_alt_def dest: match_lit_upper_no_punct)
  next
    case 2
    then have "is_space c" by (rule set_takeWhileD [THEN conjunct2])
    then show ?thesis by (rule space_not_punct)
  next
    case 3
    with 2 assms(2) Phrase show ?thesis
      by (auto simp: word_alt_def dest: match_lit_upper_no_punct)
  qed
qed

lemma first_alt_source:
  "first_alt prev as s = Some (m, r) \<Longrightarrow>
   \<exists>a \<in> set as. match_alt prev a s = Some (m, r) \<and> word_boundary (before_rest prev m) r"
  by (induction as) (auto split: option.splits if_splits)

lemma punct_tokens_punct: "t \<in> set punct_tokens \<Longrightarrow> list_all is_punct (js t) \<and> t \<noteq> []"
  by (auto simp: punct_tokens_def js_def is_punct_def)

lemma canon_punct_list: "list_all is_punct p \<Longrightarrow> map canon m = map canon p \<Longrightarrow> m = p"
  by (induction p arbitrary: m) (auto simp: canon_punct)

lemma bounded_token_head: "bounded_token prev (c # cs) = Some mr \<Longrightarrow> is_punct c"
proof -
  assume a: "bounded_token prev (c # cs) = Some mr"
  obtain m r where "mr = (m, r)" by (cases mr)
  with a have "find_token punct_tokens (c # cs) = Some (m, r)"
    by (auto simp: bounded_token_def split: option.splits if_splits)
  from find_token_sound [OF this] obtain t where
    t: "t \<in> set punct_tokens" "c # cs = js t @ r" by auto
  with punct_tokens_punct [OF t(1)] show ?thesis
    by (cases t) (auto simp: js_def)
qed

lemma sql_match_punct_free:
  assumes "sql_match prev s = Some (m, r)" "bounded_token prev s = None" "c \<in> set m"
  shows "\<not> is_punct c"
proof -
  from assms(1) have wb: "word_boundary prev s"
    and fa: "first_alt prev alternatives s = Some (m, r)"
    by (auto simp: sql_match_def split: if_splits)
  from first_alt_source [OF fa] obtain a where
    a: "a \<in> set alternatives" "match_alt prev a s = Some (m, r)"
      "word_boundary (before_rest prev m) r" by auto
  from alternatives_kinds [OF a(1)] show ?thesis
  proof
    assume "word_alt a"
    then show ?thesis by (rule match_alt_word_no_punct [OF a(2) _ assms(3)])
  next
    assume "\<exists>t \<in> set punct_tokens. a = Token t"
    then obtain t where t: "t \<in> set punct_tokens" "a = Token t" by auto
    with a(2) have ml: "match_lit (js t) s = Some (m, r)" by simp
    from punct_tokens_punct [OF t(1)] have p: "list_all is_punct (js t)" "t \<noteq> []" by simp_all
    from match_lit_canon [OF ml] p(1) have m: "m = js t" by (rule canon_punct_list [rotated])
    from match_lit_append [OF ml] m have s: "s = js t @ r" by simp
    from p m have ne: "m \<noteq> []" by (simp add: js_def)
    with p m last_in_set [of m] hd_in_set [of m]
    have pl: "is_punct (last m)" and ph: "is_punct (hd m)" by (auto simp: list_all_iff)
    from a(3) ne pl obtain b r' where r: "r = b # r'" "is_word b"
      by (auto simp: word_boundary_def before_rest_def dest: punct_not_word split: list.splits)
    obtain h tl where m_eq: "m = h # tl" using ne by (cases m) auto
    with ph have "\<not> is_word h" by (auto dest: punct_not_word)
    moreover from s m m_eq have "s = h # tl @ r" by simp
    ultimately have "case prev of None \<Rightarrow> False | Some c \<Rightarrow> is_word c"
      using wb by (simp add: word_boundary_def)
    then obtain x where x: "prev = Some x" "is_word x" by (cases prev) auto
    from find_token_complete [OF t(1) r(2), of r'] s r x assms(2) show ?thesis
      by (simp add: bounded_token_def)
  qed
qed

lemma not_word_punct [simp]:
  "\<not> is_word 0x2D" "\<not> is_word 0x2F" "\<not> is_word 0x2A" "\<not> is_word 0x23" "\<not> is_word 0x3B"
  by (simp_all add: is_word_def)

lemma first_alt_append_list:
  "first_alt prev (xs @ ys) s =
     (case first_alt prev xs s of None \<Rightarrow> first_alt prev ys s | Some x \<Rightarrow> Some x)"
  by (induction xs) (auto split: option.splits)

lemma match_alt_word_head:
  assumes "word_alt a" "alt_nonempty a" "is_punct c"
  shows "match_alt prev a (c # cs) = None"
proof (cases "match_alt prev a (c # cs)")
  case (Some mr)
  obtain m r where mr: "mr = (m, r)" by (cases mr)
  from match_alt_append [of prev a "c # cs" m r] Some mr assms(2)
  have "c # cs = m @ r" "m \<noteq> []" by simp_all
  then have "c \<in> set m" by (cases m) auto
  from match_alt_word_no_punct [OF _ assms(1) this] Some mr assms(3)
  show ?thesis by simp
qed simp

lemma first_alt_words_none:
  "list_all (\<lambda>a. word_alt a \<and> alt_nonempty a) as \<Longrightarrow> is_punct c \<Longrightarrow>
   first_alt prev as (c # cs) = None"
  by (induction as) (simp_all add: match_alt_word_head)

lemma keywords_first: "list_all (\<lambda>a. word_alt a \<and> alt_nonempty a) (take 20 alternatives)"
  by code_simp

lemma alternatives_rest:
  "drop 20 alternatives =
     [Token ''--'', Token ''/*'', Token ''*/'', Token ''#'', Token '';'', Token ''--'',
      Phrase ''DROP'' ''TABLE'', Phrase ''SHOW'' ''TABLES'', Phrase ''UNION'' ''SELECT'',
      Phrase ''INSERT'' ''INTO'']"
  by (simp add: alternatives_def)

lemma first_alt_punct_head:
  assumes "is_punct c"
  shows "first_alt prev alternatives (c # cs) = first_alt prev (drop 20 alternatives) (c # cs)"
proof -
  have "first_alt prev (take 20 alternatives @ drop 20 alternatives) (c # cs)
        = first_alt prev (drop 20 alternatives) (c # cs)"
    unfolding first_alt_append_list
    using first_alt_words_none [OF keywords_first assms] by simp
  then show ?thesis by simp
qed

lemma is_punct_chars [simp]:
  "is_punct 0x2D" "is_punct 0x2F" "is_punct 0x2A" "is_punct 0x23" "is_punct 0x3B"
  by (simp_all add: is_punct_def js_def)

lemma sql_match_token:
  assumes "t \<in> set punct_tokens" "is_word a" "is_word b"
  shows "sql_match (Some a) (js t @ b # r) = Some (js t, b # r)"
proof -
  from assms(1) consider "t = ''--''" | "t = ''/*''" | "t = ''*/''" | "t = ''#''" | "t = '';''"
    by (auto simp: punct_tokens_def)
  then show ?thesis
  proof cases
    case 1
    have "first_alt (Some a) alternatives (0x2D # 0x2D # b # r) = Some ([0x2D, 0x2D], b # r)"
      using assms(2,3)
      by (simp add: first_alt_punct_head alternatives_rest match_lit_def js_def canon_def
          word_boundary_def before_rest_def)
    with 1 assms(2) show ?thesis by (simp add: sql_match_def word_boundary_def js_def)
  next
    case 2
    have "first_alt (Some a) alternatives (0x2F # 0x2A # b # r) = Some ([0x2F, 0x2A], b # r)"
      using assms(2,3)
      by (simp add: first_alt_punct_head alternatives_rest match_lit_def js_def canon_def
          word_boundary_def before_rest_def)
    with 2 assms(2) show ?thesis by (simp add: sql_match_def word_boundary_def js_def)
  next
    case 3
    have "first_alt (Some a) alternatives (0x2A # 0x2F # b # r) = Some ([0x2A, 0x2F], b # r)"
      using assms(2,3)
      by (simp add: first_alt_punct_head alternatives_rest match_lit_def js_def canon_def
          word_boundary_def before_rest_def)
    with 3 assms(2) show ?thesis by (simp add: sql_match_def word_boundary_def js_def)
  next
    case 4
    have "first_alt (Some a) alternatives (0x23 # b # r) = Some ([0x23], b # r)"
      using assms(2,3)
      by (simp add: first_alt_punct_head alternatives_rest match_lit_def js_def canon_def
          word_boundary_def before_rest_def)
    with 4 assms(2) show ?thesis by (simp add: sql_match_def word_boundary_def js_def)
  next
    case 5
    have "first_alt (Some a) alternatives (0x3B # b # r) = Some ([0x3B], b # r)"
      using assms(2,3)
      by (simp add: first_alt_punct_head alternatives_rest match_lit_def js_def canon_def
          word_boundary_def before_rest_def)
    with 5 assms(2) show ?thesis by (simp add: sql_match_def word_boundary_def js_def)
  qed
qed

lemma sql_match_bounded:
  assumes "bounded_token prev s = Some (m, r)"
  shows "sql_match prev s = Some (m, r)"
proof -
  from assms obtain a where a: "prev = Some a" "is_word a"
    and ft: "find_token punct_tokens s = Some (m, r)"
    by (auto simp: bounded_token_def split: option.splits if_splits)
  from find_token_sound [OF ft] obtain t b r' where
    t: "t \<in> set punct_tokens" "m = js t" "s = m @ r" "r = b # r'" "is_word b" by auto
  from sql_match_token [OF t(1) a(2) t(5), of r'] t a show ?thesis by simp
qed

lemma escape_match_plain: "\<forall>c \<in> set m. \<not> is_punct c \<Longrightarrow> escape_match m = m"
  by (induction m) (auto simp: escape_match_def)

lemma escape_bounded_copy:
  "\<forall>c \<in> set m. \<not> is_punct c \<Longrightarrow> m \<noteq> [] \<Longrightarrow>
   escape_bounded prev (m @ r) = m @ escape_bounded (Some (last m)) r"
proof (induction m arbitrary: prev)
  case Nil
  then show ?case by simp
next
  case (Cons c m)
  have none: "bounded_token prev (c # m @ r) = None"
  proof (cases "bounded_token prev (c # m @ r)")
    case (Some mr)
    from bounded_token_head [OF this] Cons.prems show ?thesis by simp
  qed simp
  show ?case
  proof (cases "m = []")
    case True
    with none show ?thesis by simp
  next
    case False
    with Cons.IH [of "Some c"] Cons.prems none show ?thesis by simp
  qed
qed

lemma sql_replace_escape_bounded: "sql_replace prev s = escape_bounded prev s"
proof (induction prev s rule: sql_replace.induct)
  case (1 prev)
  then show ?case by simp
next
  case (2 prev c cs)
  show ?case
  proof (cases "sql_match prev (c # cs)")
    case None
    have "bounded_token prev (c # cs) = None"
    proof (cases "bounded_token prev (c # cs)")
      case (Some mr)
      then show ?thesis using sql_match_bounded [of prev "c # cs" "fst mr" "snd mr"] None
        by simp
    qed simp
    with None "2.IH"(1) [OF None] show ?thesis by simp
  next
    case (Some mr)
    obtain m rest where mr: "mr = (m, rest)" by (cases mr)
    from Some mr have sm: "sql_match prev (c # cs) = Some (m, rest)" by simp
    from sql_match_append [OF sm] have s: "c # cs = m @ rest" "m \<noteq> []" by simp_all
    have ih: "sql_replace (before_rest prev m) rest = escape_bounded (before_rest prev m) rest"
      using "2.IH"(2) [OF sm refl] by simp
    show ?thesis
    proof (cases "bounded_token prev (c # cs)")
      case None
      with sm have free: "\<forall>c \<in> set m. \<not> is_punct c"
        by (auto dest: sql_match_punct_free)
      have "escape_bounded prev (c # cs) = m @ escape_bounded (Some (last m)) rest"
        unfolding s(1) using free s(2) by (rule escape_bounded_copy)
      with sm ih free s(2) show ?thesis
        by (simp add: escape_match_plain before_rest_def)
    next
      case (Some mr')
      obtain m' rest' where "mr' = (m', rest')" by (cases mr')
      with Some sql_match_bounded [of prev "c # cs" m' rest'] sm
      have "bounded_token prev (c # cs) = Some (m, rest)" by simp
      with sm ih show ?thesis by simp
    qed
  qed
qed

text \<open>
  C4 (as the code has it). \<open>isSqlInjection\<close> rewrites an occurrence of \<open>--\<close>, \<open>/*\<close>, \<open>*/\<close>,
  \<open>#\<close> or \<open>;\<close> exactly where it stands directly between two word characters, by a
  backslash before each of its characters, and leaves the rest of the string unchanged:
  it is the scan \<open>escape_bounded\<close>. Keyword matches pass through unchanged, so an input with
  none of the characters \<open>; # / * -\<close> is returned as it is, as \<open>hello world\<close> is.
\<close>

theorem isSqlInjection_bounded_tokens:
  "isSqlInjection input = escape_bounded None input
   \<and> (list_all (\<lambda>c. \<not> is_punct c) input \<longrightarrow> isSqlInjection input = input)
   \<and> isSqlInjection (js ''hello world'') = js ''hello world''"
proof -
  have eq: "\<And>s. isSqlInjection s = escape_bounded None s"
    by (simp add: isSqlInjection_def sql_replace_escape_bounded)
  have plain: "\<And>s. list_all (\<lambda>c. \<not> is_punct c) s \<Longrightarrow> isSqlInjection s = s"
  proof -
    fix s :: jsstring
    assume free: "list_all (\<lambda>c. \<not> is_punct c) s"
    show "isSqlInjection s = s"
    proof (cases "s = []")
      case True
      then show ?thesis by (simp add: isSqlInjection_def)
    next
      case False
      with free escape_bounded_copy [of s None "[]"] show ?thesis
        by (simp add: eq list_all_iff)
    qed
  qed
  have "list_all (\<lambda>c. \<not> is_punct c) (js ''hello world'')" by code_simp
  then have "isSqlInjection (js ''hello world'') = js ''hello world''" by (rule plain)
  with eq plain show ?thesis by blast
qed

theorem isSqlInjection_bounded_tokens_witness:
  "list_all (\<lambda>c. \<not> is_punct c) (js ''SELECT name FROM users'')
   \<and> isSqlInjection (js ''SELECT name FROM users'') = js ''SELECT name FROM users''
   \<and> isSqlInjection (js ''a;b--c ;'')
       = js ''a'' @ [0x5C] @ js '';b'' @ [0x5C] @ js ''-'' @ [0x5C] @ js ''-c ;''"
proof -
  have free: "list_all (\<lambda>c. \<not> is_punct c) (js ''SELECT name FROM users'')" by code_simp
  with isSqlInjection_bounded_tokens [of "js ''SELECT name FROM users''"]
  have 1: "isSqlInjection (js ''SELECT name FROM users'') = js ''SELECT name FROM users''"
    by blast
  have "escape_bounded None (js ''a;b--c ;'')
       = js ''a'' @ [0x5C] @ js '';b'' @ [0x5C] @ js ''-'' @ [0x5C] @ js ''-c ;''"
    by code_simp
  moreover from isSqlInjection_bounded_tokens [of "js ''a;b--c ;''"]
  have "isSqlInjection (js ''a;b--c ;'') = escape_bounded None (js ''a;b--c ;'')"
    by blast
  ultimately have 2: "isSqlInjection (js ''a;b--c ;'')
       = js ''a'' @ [0x5C] @ js '';b'' @ [0x5C] @ js ''-'' @ [0x5C] @ js ''-c ;''"
    by (rule ssubst [rotated])
  from free 1 2 show ?thesis by blast
qed

text \<open>
  C4 as stated fails: a \<open>;\<close> that does not stand between two word characters is not
  escaped. The input \<open>;\<close> comes back as it is, and so does the statement of the
  repository's own test, whose \<open>;\<close> follows a quote and ends the input.
\<close>

theorem isSqlInjection_semicolon_kept:
  "isSqlInjection (js '';'') = js '';''
   \<and> isSqlInjection (js ''SELECT * FROM users WHERE name = 'admin';'')
       = js ''SELECT * FROM users WHERE name = 'admin';''"
proof -
  have "isSqlInjection (js '';'') = js '';''" by code_simp
  moreover have "escape_bounded None (js ''SELECT * FROM users WHERE name = 'admin';'')
       = js ''SELECT * FROM users WHERE name = 'admin';''"
    by code_simp
  ultimately show ?thesis by (simp add: isSqlInjection_def sql_replace_escape_bounded)
qed

section \<open>Properties of the structural matcher\<close>

lemma first_outcome_Nil [simp]: "first_outcome [] = Valid"
  by (simp add: first_outcome_def)

lemma first_outcome_Cons [simp]:
  "first_outcome (oc # os) = (if oc = Valid then first_outcome os else oc)"
  by (simp add: first_outcome_def)

lemma first_outcome_append:
  "first_outcome (xs @ ys) = (if first_outcome xs = Valid then first_outcome ys else first_outcome xs)"
  by (induction xs) auto

lemma first_outcome_Valid: "first_outcome os = Valid \<longleftrightarrow> (\<forall>oc \<in> set os. oc = Valid)"
  by (induction os) auto

lemma array_inner_first:
  "array_inner s xs j path =
     first_outcome (map (\<lambda>k. validateByStructure s (xs ! k) (element_path path (j + k)))
                        [0..<length xs])"
proof (induction xs arbitrary: j)
  case Nil
  then show ?case by simp
next
  case (Cons x xs)
  show ?case
    by (cases "validateByStructure s x (element_path path j)")
       (simp_all add: Cons.IH map_upt_Suc element_path_def del: upt_Suc)
qed

lemma array_outer_first:
  "array_outer ss items path =
     first_outcome (concat (map (\<lambda>s. map (\<lambda>j. validateByStructure s (items ! j)
                                               (element_path path j)) [0..<length items]) ss))"
proof (induction ss)
  case Nil
  then show ?case by simp
next
  case (Cons s ss)
  have inner: "array_inner s items 0 path =
     first_outcome (map (\<lambda>j. validateByStructure s (items ! j) (element_path path j))
                        [0..<length items])"
    using array_inner_first [of s items 0 path] by simp
  show ?case
    by (cases "array_inner s items 0 path")
       (simp_all add: Cons.IH first_outcome_append inner [symmetric])
qed

lemma validateByStructure_array_Valid:
  "validateByStructure (Arr structure) (Arr items) path = Valid \<longleftrightarrow>
     (\<forall>s \<in> set structure. \<forall>j < length items.
        validateByStructure s (items ! j) (element_path path j) = Valid)"
  by (auto simp: array_outer_first first_outcome_Valid)

text \<open>
  C2. Given an array shape, \<open>validateByStructure\<close> fails at once when the subject is not an
  array. Otherwise it returns the first outcome that is not \<open>Valid\<close> among the checks of
  every subject element against every element shape, shape index outermost, subject
  index innermost, each at the path followed by the index of the subject element in
  brackets. So the subject is valid exactly when each of its elements is valid against
  every declared element shape.
\<close>

theorem validateByStructure_array_shape:
  "(\<not> isArray arg \<longrightarrow>
      validateByStructure (Arr structure) arg path = Failure (expected_array path arg))
   \<and> validateByStructure (Arr structure) (Arr items) path =
       first_outcome (concat (map (\<lambda>s. map (\<lambda>j. validateByStructure s (items ! j)
           (path @ js ''['' @ show_nat j @ js '']'')) [0..<length items]) structure))
   \<and> (validateByStructure (Arr structure) (Arr items) path = Valid \<longleftrightarrow>
        (\<forall>s \<in> set structure. \<forall>j < length items.
           validateByStructure s (items ! j) (path @ js ''['' @ show_nat j @ js '']'') = Valid))"
proof -
  have 1: "\<not> isArray arg \<longrightarrow>
      validateByStructure (Arr structure) arg path = Failure (expected_array path arg)"
    by (cases arg) simp_all
  have 2: "validateByStructure (Arr structure) (Arr items) path =
       first_outcome (concat (map (\<lambda>s. map (\<lambda>j. validateByStructure s (items ! j)
           (path @ js ''['' @ show_nat j @ js '']'')) [0..<length items]) structure))"
    by (simp add: array_outer_first element_path_def)
  have 3: "validateByStructure (Arr structure) (Arr items) path = Valid \<longleftrightarrow>
        (\<forall>s \<in> set structure. \<forall>j < length items.
           validateByStructure s (items ! j) (path @ js ''['' @ show_nat j @ js '']'') = Valid)"
    using validateByStructure_array_Valid [of "structure" items path]
    by (simp add: element_path_def)
  from 1 2 3 show ?thesis by blast
qed

theorem validateByStructure_array_shape_witness:
  "validateByStructure (Arr [Str (js ''number'')]) (Str (js ''one'')) []
     = Failure (js ''Expected an array at path \"\", but got string'')
   \<and> validateByStructure (Arr [Str (js ''number'')]) (Arr [Num (Finite 1), Num (Finite 2)]) []
     = Valid
   \<and> validateByStructure (Arr [Str (js ''number''), Str (js ''string'')]) (Arr [Num (Finite 1)]) []
     = Failure (js ''Expected type string at path \"[0]\", but got number'')"
proof -
  have "validateByStructure (Arr [Str (js ''number'')]) (Str (js ''one'')) []
     = Failure (js ''Expected an array at path \"\", but got string'')"
    using validateByStructure_array_shape [of "Str (js ''one'')" "[Str (js ''number'')]" "[]" "[]"]
    by (simp add: expected_array_def js_def)
  moreover have "validateByStructure (Arr [Str (js ''number'')]) (Arr [Num (Finite 1), Num (Finite 2)]) []
     = Valid"
    using validateByStructure_array_shape [of Null "[Str (js ''number'')]" "[]" "[Num (Finite 1), Num (Finite 2)]"]
    by (simp add: less_Suc_eq numeral_2_eq_2)
  moreover have "validateByStructure (Arr [Str (js ''number''), Str (js ''string'')]) (Arr [Num (Finite 1)]) []
     = Failure (js ''Expected type string at path \"[0]\", but got number'')"
    using validateByStructure_array_shape [of Null "[Str (js ''number''), Str (js ''string'')]" "[]" "[Num (Finite 1)]"]
    by (simp add: expected_type_def js_def show_nat.simps)
  ultimately show ?thesis by blast
qed

lemma show_nat_digits: "set (show_nat n) \<subseteq> set (js ''0123456789'')"
proof (induction n rule: show_nat.induct)
  case (1 n)
  have d: "\<And>k. k < 10 \<Longrightarrow> js ''0123456789'' ! k \<in> set (js ''0123456789'')"
    by (rule nth_mem) (simp add: js_def)
  show ?case
  proof (cases "n < 10")
    case True
    then show ?thesis using d [of n] by (subst show_nat.simps) simp
  next
    case False
    with "1.IH" d [of "n mod 10"] show ?thesis by (subst show_nat.simps) simp
  qed
qed

lemma show_nat_not_name: "show_nat n \<noteq> js ''hasOwnProperty''"
proof
  assume "show_nat n = js ''hasOwnProperty''"
  with show_nat_digits [of n] have "set (js ''hasOwnProperty'') \<subseteq> set (js ''0123456789'')"
    by simp
  then show False by (simp add: js_def)
qed

lemma own_property_array_name: "own_property (Arr xs) (js ''hasOwnProperty'') = None"
proof -
  have "js ''hasOwnProperty'' \<notin> fst ` set (map (\<lambda>i. (show_nat i, xs ! i)) [0..<length xs])"
  proof
    assume "js ''hasOwnProperty'' \<in> fst ` set (map (\<lambda>i. (show_nat i, xs ! i)) [0..<length xs])"
    then obtain i where "show_nat i = js ''hasOwnProperty''" by auto
    with show_nat_not_name [of i] show False by simp
  qed
  then have "map_of (map (\<lambda>i. (show_nat i, xs ! i)) [0..<length xs]) (js ''hasOwnProperty'') = None"
    by (simp add: map_of_eq_None_iff)
  then show ?thesis by (simp add: js_def)
qed

lemma own_property_no_shadow:
  assumes "no_shadow v" "own_property v k = Some x"
  shows "no_shadow x"
proof (cases v)
  case (Obj fs)
  with assms(2) have "(k, x) \<in> set fs" by (auto dest: map_of_SomeD)
  with assms(1) Obj show ?thesis by (auto simp: list_all_iff)
next
  case (Arr xs)
  show ?thesis
  proof (cases "k = js ''length''")
    case True
    with assms(2) Arr show ?thesis by auto
  next
    case False
    with assms(2) Arr have "(k, x) \<in> set (map (\<lambda>i. (show_nat i, xs ! i)) [0..<length xs])"
      by (auto dest: map_of_SomeD)
    then have "x \<in> set xs" by auto
    with assms(1) Arr show ?thesis by (auto simp: list_all_iff)
  qed
qed (use assms in auto)

lemma no_shadow_hasOwnProperty:
  assumes "no_shadow v"
  shows "hasOwnProperty v key = Returned (own_property v key \<noteq> None)"
proof -
  have "own_property v (js ''hasOwnProperty'') = None"
  proof (cases v)
    case (Arr xs)
    then show ?thesis by (simp only: own_property_array_name)
  next
    case (Obj fs)
    with assms show ?thesis by simp
  qed simp_all
  then show ?thesis by (simp add: hasOwnProperty_def)
qed

lemma object_loop_Valid:
  assumes "no_shadow (Obj structure)" "no_shadow arg"
    and "\<forall>f \<in> set rest. own_property (Obj structure) (fst f) \<noteq> None
           \<and> own_property arg (fst f) \<noteq> None
           \<and> validateByStructure (snd f) (get_property arg (fst f)) (path @ js ''.'' @ fst f) = Valid"
  shows "object_loop rest structure arg path = Valid"
  using assms(3)
proof (induction rest)
  case Nil
  then show ?case by simp
next
  case (Cons f rest)
  obtain key s where f: "f = (key, s)" by (cases f)
  from Cons.prems f have
    "hasOwnProperty (Obj structure) key = Returned True"
    "hasOwnProperty arg key = Returned True"
    "validateByStructure s (get_property arg key) (path @ js ''.'' @ key) = Valid"
    by (simp_all add: no_shadow_hasOwnProperty [OF assms(1)] no_shadow_hasOwnProperty [OF assms(2)])
  moreover from Cons have "object_loop rest structure arg path = Valid" by simp
  ultimately show ?case using f by simp
qed


lemma validateByStructure_sound:
  "conforms structure arg \<Longrightarrow> no_shadow structure \<Longrightarrow> no_shadow arg \<Longrightarrow>
   validateByStructure structure arg path = Valid"
proof (induction "structure" arbitrary: arg path)
  case (Str tag)
  then show ?case by simp
next
  case (Arr shapes)
  from Arr.prems(1) obtain items where arg: "arg = Arr items"
    and all: "list_all (\<lambda>s. list_all (conforms s) items) shapes"
    by (cases arg) auto
  have "validateByStructure s (items ! j) (element_path path j) = Valid"
    if "s \<in> set shapes" "j < length items" for s j
  proof (rule Arr.IH [OF that(1)])
    from all that show "conforms s (items ! j)" by (simp add: list_all_iff)
    from Arr.prems(2) that(1) show "no_shadow s" by (simp add: list_all_iff)
    from Arr.prems(3) arg that(2) show "no_shadow (items ! j)" by (simp add: list_all_iff)
  qed
  with arg show ?case by (simp only: validateByStructure_array_Valid) blast
next
  case (Obj fields)
  from Obj.prems(1) have obj: "typeof arg = js ''object''" "arg \<noteq> Null"
    and all: "list_all (\<lambda>f. case own_property arg (fst f) of
                           None \<Rightarrow> False
                         | Some x \<Rightarrow> conforms (snd f) x) fields"
    by simp_all
  have "own_property (Obj fields) (fst f) \<noteq> None
           \<and> own_property arg (fst f) \<noteq> None
           \<and> validateByStructure (snd f) (get_property arg (fst f)) (path @ js ''.'' @ fst f) = Valid"
    if f: "f \<in> set fields" for f
  proof -
    from all f obtain x where x: "own_property arg (fst f) = Some x" "conforms (snd f) x"
      by (auto simp: list_all_iff split: option.splits)
    from f have "fst f \<in> fst ` set fields" by simp
    then have 1: "own_property (Obj fields) (fst f) \<noteq> None"
      by (simp add: map_of_eq_None_iff)
    have "snd f \<in> Basic_BNFs.snds f" by (cases f) simp
    from Obj.IH [OF f this x(2)] Obj.prems(2) f own_property_no_shadow [OF Obj.prems(3) x(1)]
    have "validateByStructure (snd f) x (path @ js ''.'' @ fst f) = Valid"
      by (simp add: list_all_iff)
    with 1 x show ?thesis by (simp add: get_property_def)
  qed
  then have "object_loop fields fields arg path = Valid"
    using object_loop_Valid [OF Obj.prems(2,3), of fields path] by blast
  with obj show ?case by simp
qed simp_all

text \<open>
  C1. A subject that conforms to its shape is valid, whatever other fields it has, as long
  as none of them is named \<open>hasOwnProperty\<close>: that is \<open>validateByStructure_sound\<close> above.
  With such a field the claim fails on the code. The subject \<open>{a: "x", hasOwnProperty: true}\<close>
  conforms to the shape \<open>{a: "string"}\<close>, and \<open>arg.hasOwnProperty(key)\<close> then calls the
  value \<open>true\<close>: the call raises a \<open>TypeError\<close> where the documentation of the function
  promises an \<open>Error\<close> or nothing as the result. Without the extra field the same
  subject is valid.
\<close>

theorem validateByStructure_shadowed_method:
  "conforms (Obj [(js ''a'', Str (js ''string''))])
            (Obj [(js ''a'', Str (js ''x'')), (js ''hasOwnProperty'', Bool True)])
   \<and> validateByStructure (Obj [(js ''a'', Str (js ''string''))])
        (Obj [(js ''a'', Str (js ''x'')), (js ''hasOwnProperty'', Bool True)]) [] = TypeError
   \<and> validateByStructure (Obj [(js ''a'', Str (js ''string''))])
        (Obj [(js ''a'', Str (js ''x''))]) [] = Valid"
  by code_simp

lemma validateByStructure_unknown_kinds:
  "typeof structure \<noteq> js ''string'' \<Longrightarrow> typeof structure \<noteq> js ''object'' \<Longrightarrow>
   validateByStructure structure arg path = Failure (unknown_structure path)"
  by (cases "structure") (simp_all add: js_def)

text \<open>
  C5. A shape that is neither a string nor of type \<open>object\<close> (a number, a boolean, a
  function, \<open>undefined\<close>, a bigint, a symbol) gives the failure \<open>Unknown structure type\<close>:
  that is \<open>validateByStructure_unknown_kinds\<close> above. For the shape \<open>null\<close> the claim fails
  on the code: \<open>typeof null\<close> is \<open>"object"\<close>, so \<open>null\<close> is taken for an object shape
  with no fields. Every object and every array is then valid, and any other subject gives
  the failure \<open>Expected an object\<close>.
\<close>

theorem validateByStructure_null_shape:
  "validateByStructure Null (Obj []) [] = Valid
   \<and> validateByStructure Null (Arr [Num (Finite 1)]) [] = Valid
   \<and> validateByStructure Null (Num (Finite 5)) []
       = Failure (js ''Expected an object at path \"\", but got number'')
   \<and> validateByStructure Null (Num (Finite 5)) [] \<noteq> Failure (unknown_structure [])"
  by code_simp

section \<open>Properties of \<open>isNull\<close>\<close>

text \<open>
  C7 (as the code has it). \<open>isNull\<close> returns normally on \<open>0\<close> (either zero). It raises on
  every other falsy value: \<open>undefined\<close>, \<open>null\<close>, \<open>NaN\<close>, the empty string and \<open>0n\<close> are
  rejected as falsy, and \<open>false\<close>, which the falsy-value test lets through, is rejected
  with \<open>Invalid value type\<close>, as \<open>true\<close> is: a boolean is not one of the recognised types
  string, number and bigint. It raises on the empty array and on the empty plain object.
\<close>

theorem isNull_falsy_values:
  "(is_zero v \<longrightarrow> isNull v = Inr ())
   \<and> (falsy v \<and> \<not> is_zero v \<and> v \<noteq> Bool False \<longrightarrow>
        isNull v = Inl (js ''Value is null, undefined, or falsy''))
   \<and> isNull (Bool False) = Inl (js ''Invalid value type'')
   \<and> isNull (Bool True) = Inl (js ''Invalid value type'')
   \<and> isNull (Arr []) = Inl (js ''Value is an empty array'')
   \<and> isNull (Obj []) = Inl (js ''Value is an empty class instance'')"
proof -
  have "is_zero v \<longrightarrow> isNull v = Inr ()"
    by (cases v) (auto simp: isNull_def js_def)
  moreover have "falsy v \<and> \<not> is_zero v \<and> v \<noteq> Bool False \<longrightarrow>
        isNull v = Inl (js ''Value is null, undefined, or falsy'')"
    by (simp add: isNull_def)
  moreover have "isNull (Bool False) = Inl (js ''Invalid value type'')"
    "isNull (Bool True) = Inl (js ''Invalid value type'')"
    "isNull (Arr []) = Inl (js ''Value is an empty array'')"
    "isNull (Obj []) = Inl (js ''Value is an empty class instance'')"
    by (simp_all add: isNull_def js_def)
  ultimately show ?thesis by blast
qed

theorem isNull_falsy_values_witness:
  "isNull (Num (Finite 0)) = Inr () \<and> isNull (Num NegZero) = Inr ()
   \<and> isNull Null = Inl (js ''Value is null, undefined, or falsy'')
   \<and> isNull Undefined = Inl (js ''Value is null, undefined, or falsy'')
   \<and> isNull (Num NaN) = Inl (js ''Value is null, undefined, or falsy'')
   \<and> isNull (Str []) = Inl (js ''Value is null, undefined, or falsy'')
   \<and> isNull (BigInt 0) = Inl (js ''Value is null, undefined, or falsy'')"
  using isNull_falsy_values [of "Num (Finite 0)"] isNull_falsy_values [of "Num NegZero"]
    isNull_falsy_values [of Null] isNull_falsy_values [of Undefined]
    isNull_falsy_values [of "Num NaN"] isNull_falsy_values [of "Str []"]
    isNull_falsy_values [of "BigInt 0"]
  by simp

text \<open>C7 as stated fails: \<open>isNull(false)\<close> raises.\<close>

theorem isNull_false_raises:
  "falsy (Bool False) \<and> isNull (Bool False) = Inl (js ''Invalid value type'')
   \<and> isNull (Bool False) \<noteq> Inr ()"
  by (simp add: isNull_def js_def)

section \<open>Properties of the type guard\<close>











section \<open>Properties of \<open>validatePassword\<close>\<close>

lemma allowed_not_terminator: "allowed c \<Longrightarrow> \<not> line_terminator c"
  by (auto simp: allowed_def is_upper_def is_lower_def is_digit_def is_special_def
      line_terminator_def js_def)

lemma lookahead_allowed: "list_all allowed s \<Longrightarrow> lookahead C s = list_ex C s"
proof -
  assume "list_all allowed s"
  then have "takeWhile (\<lambda>c. \<not> line_terminator c) s = s"
    by (simp add: takeWhile_eq_all_conv list_all_iff allowed_not_terminator)
  then show ?thesis unfolding lookahead_def by (rule arg_cong)
qed

lemma passwordRegex_iff:
  "passwordRegex s \<longleftrightarrow>
     list_all allowed s \<and> 8 \<le> length s \<and> length s \<le> 128
     \<and> list_ex is_lower s \<and> list_ex is_upper s \<and> list_ex is_digit s \<and> list_ex is_special s"
  using lookahead_allowed [of s] by (auto simp: passwordRegex_def)

text \<open>
  C6 (as the code has it). With bounds inside the range 8 to 128 that the pattern itself
  allows, \<open>validatePassword\<close> raises nothing exactly when the password is within the two
  bounds, every character of it is a letter \<open>A-Z\<close>, \<open>a-z\<close>, a digit or one of
  \<open>@$!%*?&\<close>, and it has a lowercase letter, an uppercase letter, a digit and one of
  those symbols. So \<open>Password1!\<close> raises nothing and \<open>Password123\<close> raises the message
  about the missing character classes.
\<close>

theorem validatePassword_accepts:
  "8 \<le> possiblePasswordMinLength \<and> possiblePasswordLength \<le> 128 \<longrightarrow>
     (validatePassword password possiblePasswordMinLength possiblePasswordLength = Inr ()
      \<longleftrightarrow> possiblePasswordMinLength \<le> int (length password)
          \<and> int (length password) \<le> possiblePasswordLength
          \<and> list_all allowed password
          \<and> list_ex is_lower password \<and> list_ex is_upper password
          \<and> list_ex is_digit password \<and> list_ex is_special password)"
  by (auto simp: validatePassword_def passwordRegex_iff)

theorem validatePassword_accepts_witness:
  "(8::int) \<le> 8 \<and> (128::int) \<le> 128
   \<and> validatePassword (js ''Password1!'') 8 128 = Inr ()
   \<and> validatePassword (js ''Password123'') 8 128 = Inl password_weak"
proof -
  have 1: "list_all allowed (js ''Password1!'')" "list_ex is_lower (js ''Password1!'')"
    "list_ex is_upper (js ''Password1!'')" "list_ex is_digit (js ''Password1!'')"
    "list_ex is_special (js ''Password1!'')"
    by code_simp+
  have 2: "\<not> list_ex is_special (js ''Password123'')" by code_simp
  have "validatePassword (js ''Password1!'') 8 128 = Inr ()"
    using validatePassword_accepts [of 8 128 "js ''Password1!''"] 1 by (simp add: js_def)
  moreover have "validatePassword (js ''Password123'') 8 128 \<noteq> Inr ()"
    using validatePassword_accepts [of 8 128 "js ''Password123''"] 2 by (simp add: js_def)
  then have "validatePassword (js ''Password123'') 8 128 = Inl password_weak"
    by (simp add: validatePassword_def js_def split: if_splits)
  ultimately show ?thesis by simp
qed

text \<open>
  C6 as stated fails: \<open>Pass word1!\<close> is within the bounds and has a character of each of
  the four classes, and it raises, because the pattern also rejects the space.
\<close>

theorem validatePassword_alphabet:
  "validatePassword (js ''Pass word1!'') 8 128 = Inl password_weak
   \<and> 8 \<le> length (js ''Pass word1!'') \<and> length (js ''Pass word1!'') \<le> 128
   \<and> list_ex is_lower (js ''Pass word1!'') \<and> list_ex is_upper (js ''Pass word1!'')
   \<and> list_ex is_digit (js ''Pass word1!'') \<and> list_ex is_special (js ''Pass word1!'')"
  by code_simp

section \<open>Properties of \<open>validateNonEmptyFields\<close>\<close>

lemma forEach_item_ok:
  "forEach_item items depth currentDepth = Inr () \<longleftrightarrow>
     (\<forall>item \<in> set items. validateNonEmptyFields item depth (currentDepth + 1) = Inr ())"
proof (induction items)
  case Nil
  then show ?case by simp
next
  case (Cons item items)
  then show ?case
    by (cases "validateNonEmptyFields item depth (currentDepth + 1)") simp_all
qed

lemma forEach_entry_ok:
  "forEach_entry entries depth currentDepth = Inr () \<longleftrightarrow>
     (\<forall>e \<in> set entries. \<not> is_blank (snd e)
        \<and> (typeof (snd e) = js ''object'' \<or> isArray (snd e)
             \<longrightarrow> validateNonEmptyFields (snd e) depth (currentDepth + 1) = Inr ()))"
proof (induction entries)
  case Nil
  then show ?case by simp
next
  case (Cons e entries)
  obtain key v where e: "e = (key, v)" by (cases e)
  show ?case
  proof (cases "is_blank v")
    case True
    with e show ?thesis by simp
  next
    case nb: False
    show ?thesis
    proof (cases "typeof v = js ''object'' \<or> isArray v")
      case True
      show ?thesis
      proof (cases "validateNonEmptyFields v depth (currentDepth + 1)")
        case (Inl x)
        with True nb e show ?thesis by auto
      next
        case (Inr u)
        with True nb e Cons.IH show ?thesis by auto
      qed
    next
      case False
      with nb e Cons.IH show ?thesis by simp
    qed
  qed
qed

lemma validateNonEmptyFields_beyond:
  "depth \<le> currentDepth \<Longrightarrow> validateNonEmptyFields data depth currentDepth = Inr ()"
  by (cases data) simp_all

lemma blank_within_primitive:
  "typeof v \<noteq> js ''object'' \<Longrightarrow> \<not> isArray v \<Longrightarrow> \<not> is_blank v \<Longrightarrow> \<not> blank_within k v"
  by (cases k; cases v) (simp_all add: is_blank_def)

lemma validateNonEmptyFields_leaf:
  "\<not> isArray v \<Longrightarrow> (\<forall>fs. v \<noteq> Obj fs) \<Longrightarrow>
   validateNonEmptyFields v depth currentDepth =
     (if depth \<le> currentDepth then Inr ()
      else if is_blank v then Inl (value_blank currentDepth) else Inr ())"
  by (cases v) simp_all

lemma blank_within_leaf:
  "\<not> isArray v \<Longrightarrow> (\<forall>fs. v \<noteq> Obj fs) \<Longrightarrow> blank_within k v = (k \<noteq> 0 \<and> is_blank v)"
  by (cases k; cases v) simp_all

lemma validateNonEmptyFields_ok:
  "validateNonEmptyFields data depth currentDepth = Inr ()
   \<longleftrightarrow> \<not> blank_within (depth - currentDepth) data"
proof (induction data arbitrary: currentDepth)
  case (Arr items)
  show ?case
  proof (cases "depth \<le> currentDepth")
    case True
    then show ?thesis by simp
  next
    case False
    then obtain k where k: "depth - currentDepth = Suc k" "depth - (currentDepth + 1) = k"
      by (cases "depth - currentDepth") auto
    with False Arr.IH [of _ "currentDepth + 1"] show ?thesis
      by (simp add: forEach_item_ok list_ex_iff)
  qed
next
  case (Obj entries)
  show ?case
  proof (cases "depth \<le> currentDepth")
    case True
    then show ?thesis by simp
  next
    case False
    then obtain k where k: "depth - currentDepth = Suc k" "depth - (currentDepth + 1) = k"
      by (cases "depth - currentDepth") auto
    have "(typeof (snd e) = js ''object'' \<or> isArray (snd e)
             \<longrightarrow> validateNonEmptyFields (snd e) depth (currentDepth + 1) = Inr ())
          \<longleftrightarrow> \<not> blank_within k (snd e)"
      if e: "e \<in> set entries" "\<not> is_blank (snd e)" for e
    proof (cases "typeof (snd e) = js ''object'' \<or> isArray (snd e)")
      case True
      have "snd e \<in> Basic_BNFs.snds e" by (cases e) simp
      from Obj.IH [OF e(1) this, of "currentDepth + 1"] True k show ?thesis by simp
    next
      case False
      with e(2) blank_within_primitive [of "snd e" k] show ?thesis by simp
    qed
    then have "(\<forall>e \<in> set entries. \<not> is_blank (snd e)
        \<and> (typeof (snd e) = js ''object'' \<or> isArray (snd e)
             \<longrightarrow> validateNonEmptyFields (snd e) depth (currentDepth + 1) = Inr ()))
      \<longleftrightarrow> (\<forall>e \<in> set entries. \<not> is_blank (snd e) \<and> \<not> blank_within k (snd e))"
      by blast
    with False k show ?thesis
      by (simp add: forEach_entry_ok list_ex_iff)
  qed
qed (simp_all add: validateNonEmptyFields_leaf blank_within_leaf)

lemma forEach_entry_append:
  "forEach_entry pre depth currentDepth = Inr () \<Longrightarrow>
   forEach_entry (pre @ rest) depth currentDepth = forEach_entry rest depth currentDepth"
proof (induction pre)
  case Nil
  then show ?case by simp
next
  case (Cons e pre)
  obtain key v where e: "e = (key, v)" by (cases e)
  from Cons.prems e have nb: "\<not> is_blank v" by (auto split: if_splits)
  show ?case
  proof (cases "typeof v = js ''object'' \<or> isArray v")
    case True
    show ?thesis
    proof (cases "validateNonEmptyFields v depth (currentDepth + 1)")
      case (Inl x)
      with True nb e Cons.prems show ?thesis by auto
    next
      case (Inr u)
      with True nb e Cons show ?thesis by auto
    qed
  next
    case False
    with nb e Cons show ?thesis by auto
  qed
qed

lemma forEach_item_append:
  "forEach_item pre depth currentDepth = Inr () \<Longrightarrow>
   forEach_item (pre @ rest) depth currentDepth = forEach_item rest depth currentDepth"
proof (induction pre)
  case Nil
  then show ?case by simp
next
  case (Cons item pre)
  then show ?case
    by (cases "validateNonEmptyFields item depth (currentDepth + 1)") simp_all
qed

lemma nest_Obj: "\<exists>gs. nest n (Obj fs) = Obj gs"
  by (cases n) simp_all

lemma validateNonEmptyFields_nest:
  "validateNonEmptyFields (nest n (Obj fs)) depth currentDepth =
     (if currentDepth + n < depth then validateNonEmptyFields (Obj fs) depth (currentDepth + n)
      else Inr ())"
proof (induction n arbitrary: currentDepth)
  case 0
  then show ?case by simp
next
  case (Suc n)
  obtain gs where gs: "nest n (Obj fs) = Obj gs" using nest_Obj by blast
  show ?case
  proof (cases "depth \<le> currentDepth")
    case True
    then show ?thesis by simp
  next
    case False
    have "validateNonEmptyFields (nest (Suc n) (Obj fs)) depth currentDepth
          = validateNonEmptyFields (nest n (Obj fs)) depth (currentDepth + 1)"
    proof (cases "validateNonEmptyFields (nest n (Obj fs)) depth (currentDepth + 1)")
      case (Inl x)
      with False gs show ?thesis by (simp add: is_blank_def js_def)
    next
      case (Inr u)
      with False gs show ?thesis by (simp add: is_blank_def js_def)
    qed
    with Suc.IH [of "currentDepth + 1"] show ?thesis by simp
  qed
qed

lemma validateNonEmptyFields_first_field:
  assumes "currentDepth < depth" "\<not> blank_within (depth - currentDepth) (Obj pre)" "is_blank v"
  shows "validateNonEmptyFields (Obj (pre @ (key, v) # post)) depth currentDepth
         = Inl (field_blank key currentDepth)"
proof -
  from assms(2) have "validateNonEmptyFields (Obj pre) depth currentDepth = Inr ()"
    by (rule iffD2 [OF validateNonEmptyFields_ok])
  with assms(1) have "forEach_entry pre depth currentDepth = Inr ()" by simp
  from forEach_entry_append [OF this] assms(1,3) show ?thesis by simp
qed

lemma validateNonEmptyFields_first_item:
  assumes "currentDepth + 1 < depth" "\<not> blank_within (depth - currentDepth) (Arr pre)"
    "is_blank v"
  shows "validateNonEmptyFields (Arr (pre @ v # post)) depth currentDepth
         = Inl (value_blank (currentDepth + 1))"
proof -
  from assms(2) have "validateNonEmptyFields (Arr pre) depth currentDepth = Inr ()"
    by (rule iffD2 [OF validateNonEmptyFields_ok])
  with assms(1) have "forEach_item pre depth currentDepth = Inr ()" by simp
  moreover from assms(1,3) have
    "validateNonEmptyFields v depth (currentDepth + 1) = Inl (value_blank (currentDepth + 1))"
    by (auto simp: is_blank_def)
  ultimately show ?thesis using forEach_item_append [of pre depth currentDepth "v # post"] assms(1)
    by simp
qed

lemma first_failure_Nil [simp]: "first_failure [] = Inr ()"
  by (simp add: first_failure_def)

lemma first_failure_Cons [simp]:
  "first_failure (r # rs) = (if r = Inr () then first_failure rs else r)"
  by (simp add: first_failure_def)

lemma forEach_item_first:
  "forEach_item items depth currentDepth =
     first_failure (map (\<lambda>item. validateNonEmptyFields item depth (currentDepth + 1)) items)"
proof (induction items)
  case Nil
  then show ?case by simp
next
  case (Cons item items)
  then show ?case
    by (cases "validateNonEmptyFields item depth (currentDepth + 1)") simp_all
qed

lemma forEach_entry_first:
  "forEach_entry entries depth currentDepth =
     first_failure (map (\<lambda>(key, v).
         if is_blank v then Inl (field_blank key currentDepth)
         else if typeof v = js ''object'' \<or> isArray v
              then validateNonEmptyFields v depth (currentDepth + 1)
              else Inr ()) entries)"
proof (induction entries)
  case Nil
  then show ?case by simp
next
  case (Cons e entries)
  obtain key v where e: "e = (key, v)" by (cases e)
  show ?case
  proof (cases "is_blank v")
    case True
    with e show ?thesis by simp
  next
    case nb: False
    show ?thesis
    proof (cases "typeof v = js ''object'' \<or> isArray v")
      case True
      show ?thesis
      proof (cases "validateNonEmptyFields v depth (currentDepth + 1)")
        case (Inl x)
        with True nb e show ?thesis by auto
      next
        case (Inr u)
        with True nb e Cons.IH show ?thesis by auto
      qed
    next
      case False
      with nb e Cons.IH show ?thesis by auto
    qed
  qed
qed

lemma validateNonEmptyFields_nested_field:
  assumes "currentDepth < depth" "\<not> blank_within (depth - currentDepth) (Obj pre)"
    "\<not> is_blank v" "typeof v = js ''object'' \<or> isArray v"
    "validateNonEmptyFields v depth (currentDepth + 1) = Inl e"
  shows "validateNonEmptyFields (Obj (pre @ (key, v) # post)) depth currentDepth = Inl e"
proof -
  from assms(2) have "validateNonEmptyFields (Obj pre) depth currentDepth = Inr ()"
    by (rule iffD2 [OF validateNonEmptyFields_ok])
  with assms(1) have "forEach_entry pre depth currentDepth = Inr ()" by simp
  from forEach_entry_append [OF this, of "(key, v) # post"] assms(1,3,4,5) show ?thesis
    by auto
qed

lemma validateNonEmptyFields_nested_item:
  assumes "currentDepth < depth" "\<not> blank_within (depth - currentDepth) (Arr items)"
    "validateNonEmptyFields v depth (currentDepth + 1) = Inl e"
  shows "validateNonEmptyFields (Arr (items @ v # rest)) depth currentDepth = Inl e"
proof -
  from assms(2) have "validateNonEmptyFields (Arr items) depth currentDepth = Inr ()"
    by (rule iffD2 [OF validateNonEmptyFields_ok])
  with assms(1) have "forEach_item items depth currentDepth = Inr ()" by simp
  from forEach_item_append [OF this, of "v # rest"] assms(1,3) show ?thesis by simp
qed

text \<open>
  C8. For every maximum depth, nothing is inspected at a recursion depth that is not below
  it: from such a depth the function returns at once, and it raises exactly when a
  \<open>null\<close>, \<open>undefined\<close> or empty-string field is reached at a depth below the maximum. An
  object nested \<open>n\<close> levels down whose only field is blank raises (naming that field and the
  depth \<open>n\<close>) when \<open>n\<close> is below the maximum, and raises nothing when \<open>n\<close> is the maximum or
  more. Within the bound, the first blank field found is the one reported: a blank field
  of an object after fields that raise nothing, and a blank element of an array after
  elements that raise nothing; and the failure of the call on a nested object or array,
  after fields or elements that raise nothing, is the failure of the whole call whatever
  comes after it. In full: below the maximum, the call on an array returns the first
  failure among the calls on its elements, one level down, in order; the call on an
  object returns the first failure among its fields in order, where a blank field fails
  with its name and the depth of the object and a nested object or array fails as the
  call on it does, one level down; and the call on any other value fails exactly when the
  value is blank.
\<close>

theorem validateNonEmptyFields_depth_bound:
  "(depth \<le> currentDepth \<longrightarrow> validateNonEmptyFields data depth currentDepth = Inr ())
   \<and> (validateNonEmptyFields data depth currentDepth = Inr ()
        \<longleftrightarrow> \<not> blank_within (depth - currentDepth) data)
   \<and> (is_blank v \<longrightarrow>
        validateNonEmptyFields (nest n (Obj [(key, v)])) depth 0
          = (if n < depth then Inl (field_blank key n) else Inr ()))
   \<and> (currentDepth < depth \<and> \<not> blank_within (depth - currentDepth) (Obj pre) \<and> is_blank v
        \<longrightarrow> validateNonEmptyFields (Obj (pre @ (key, v) # post)) depth currentDepth
              = Inl (field_blank key currentDepth))
   \<and> (currentDepth + 1 < depth \<and> \<not> blank_within (depth - currentDepth) (Arr items)
        \<and> is_blank v
        \<longrightarrow> validateNonEmptyFields (Arr (items @ v # rest)) depth currentDepth
              = Inl (value_blank (currentDepth + 1)))
   \<and> (currentDepth < depth \<and> \<not> blank_within (depth - currentDepth) (Obj pre)
        \<and> \<not> is_blank w \<and> (typeof w = js ''object'' \<or> isArray w)
        \<and> validateNonEmptyFields w depth (currentDepth + 1) = Inl e
        \<longrightarrow> validateNonEmptyFields (Obj (pre @ (key, w) # post)) depth currentDepth = Inl e)
   \<and> (currentDepth < depth \<and> \<not> blank_within (depth - currentDepth) (Arr items)
        \<and> validateNonEmptyFields w depth (currentDepth + 1) = Inl e
        \<longrightarrow> validateNonEmptyFields (Arr (items @ w # rest)) depth currentDepth = Inl e)
   \<and> (currentDepth < depth \<longrightarrow>
        validateNonEmptyFields (Arr items) depth currentDepth
          = first_failure
              (map (\<lambda>item. validateNonEmptyFields item depth (currentDepth + 1)) items))
   \<and> (currentDepth < depth \<longrightarrow>
        validateNonEmptyFields (Obj entries) depth currentDepth
          = first_failure (map (\<lambda>(key, v).
              if is_blank v then Inl (field_blank key currentDepth)
              else if typeof v = js ''object'' \<or> isArray v
                   then validateNonEmptyFields v depth (currentDepth + 1)
                   else Inr ()) entries))
   \<and> (currentDepth < depth \<and> \<not> isArray data \<and> (\<forall>fs. data \<noteq> Obj fs) \<longrightarrow>
        validateNonEmptyFields data depth currentDepth
          = (if is_blank data then Inl (value_blank currentDepth) else Inr ()))"
proof -
  have 3: "is_blank v \<longrightarrow>
        validateNonEmptyFields (nest n (Obj [(key, v)])) depth 0
          = (if n < depth then Inl (field_blank key n) else Inr ())"
    by (simp add: validateNonEmptyFields_nest)
  have 8: "currentDepth < depth \<longrightarrow>
        validateNonEmptyFields (Arr items) depth currentDepth
          = first_failure
              (map (\<lambda>item. validateNonEmptyFields item depth (currentDepth + 1)) items)"
    by (simp add: forEach_item_first)
  have 9: "currentDepth < depth \<longrightarrow>
        validateNonEmptyFields (Obj entries) depth currentDepth
          = first_failure (map (\<lambda>(key, v).
              if is_blank v then Inl (field_blank key currentDepth)
              else if typeof v = js ''object'' \<or> isArray v
                   then validateNonEmptyFields v depth (currentDepth + 1)
                   else Inr ()) entries)"
    by (simp add: forEach_entry_first)
  have 10: "currentDepth < depth \<and> \<not> isArray data \<and> (\<forall>fs. data \<noteq> Obj fs) \<longrightarrow>
        validateNonEmptyFields data depth currentDepth
          = (if is_blank data then Inl (value_blank currentDepth) else Inr ())"
    by (simp add: validateNonEmptyFields_leaf)
  from 3 8 9 10 validateNonEmptyFields_beyond [of depth currentDepth data]
    validateNonEmptyFields_ok [of data depth currentDepth]
    validateNonEmptyFields_first_field [of currentDepth depth pre v key post]
    validateNonEmptyFields_first_item [of currentDepth depth items v rest]
    validateNonEmptyFields_nested_field [of currentDepth depth pre w e key post]
    validateNonEmptyFields_nested_item [of currentDepth depth items w e rest]
  show ?thesis by blast
qed

theorem validateNonEmptyFields_depth_bound_witness:
  "validateNonEmptyFields (Obj [(js ''a'', Obj [(js ''b'', Null)])]) 1 0 = Inr ()
   \<and> validateNonEmptyFields (Obj [(js ''a'', Obj [(js ''b'', Null)])]) 2 0
       = Inl (js ''Field \"b\" cannot be null, undefined, or empty at depth 1.'')
   \<and> validateNonEmptyFields
         (Obj [(js ''x'', Num (Finite 1)), (js ''y'', Str []), (js ''z'', Null)]) 10 0
       = Inl (js ''Field \"y\" cannot be null, undefined, or empty at depth 0.'')
   \<and> validateNonEmptyFields (Arr [Num (Finite 1), Null]) 1 0 = Inr ()
   \<and> validateNonEmptyFields (Arr [Num (Finite 1), Null]) 2 0
       = Inl (js ''Value cannot be null, undefined, or empty at depth 1.'')
   \<and> validateNonEmptyFields (Obj [(js ''a'', Null)]) 3 3 = Inr ()
   \<and> validateNonEmptyFields (Obj [(js ''a'', Obj [(js ''b'', Null)]), (js ''c'', Null)]) 2 0
       = Inl (js ''Field \"b\" cannot be null, undefined, or empty at depth 1.'')
   \<and> validateNonEmptyFields (Arr [Num (Finite 1), Arr [Null], Null]) 3 0
       = Inl (js ''Value cannot be null, undefined, or empty at depth 2.'')
   \<and> validateNonEmptyFields Null 1 0
       = Inl (js ''Value cannot be null, undefined, or empty at depth 0.'')
   \<and> validateNonEmptyFields (Arr []) 1 0 = Inr ()
   \<and> validateNonEmptyFields (Obj []) 1 0 = Inr ()"
proof -
  have b: "is_blank Null" "is_blank (Str [])" by (simp_all add: is_blank_def)
  have m: "field_blank (js ''b'') 1
             = js ''Field \"b\" cannot be null, undefined, or empty at depth 1.''"
    "field_blank (js ''y'') 0
             = js ''Field \"y\" cannot be null, undefined, or empty at depth 0.''"
    "value_blank 0 = js ''Value cannot be null, undefined, or empty at depth 0.''"
    "value_blank 1 = js ''Value cannot be null, undefined, or empty at depth 1.''"
    "value_blank 2 = js ''Value cannot be null, undefined, or empty at depth 2.''"
    by (simp_all add: field_blank_def value_blank_def js_def show_nat.simps)
  have m': "field_blank (js ''b'') (Suc 0)
             = js ''Field \"b\" cannot be null, undefined, or empty at depth 1.''"
    "value_blank (Suc 0) = js ''Value cannot be null, undefined, or empty at depth 1.''"
    using m(1) m(4) by simp_all
  have n: "nest 1 (Obj [(js ''b'', Null)]) = Obj [(js ''a'', Obj [(js ''b'', Null)])]"
    by (simp add: numeral_eq_Suc)
  from validateNonEmptyFields_depth_bound
    [where depth = 1 and v = Null and n = 1 and key = "js ''b''"] b(1)
  have "validateNonEmptyFields (nest 1 (Obj [(js ''b'', Null)])) 1 0
          = (if (1::nat) < 1 then Inl (field_blank (js ''b'') 1) else Inr ())"
    by blast
  then have 1: "validateNonEmptyFields (Obj [(js ''a'', Obj [(js ''b'', Null)])]) 1 0 = Inr ()"
    by (simp add: n del: validateNonEmptyFields.simps)
  from validateNonEmptyFields_depth_bound
    [where depth = 2 and v = Null and n = 1 and key = "js ''b''"] b(1)
  have "validateNonEmptyFields (nest 1 (Obj [(js ''b'', Null)])) 2 0
          = (if (1::nat) < 2 then Inl (field_blank (js ''b'') 1) else Inr ())"
    by blast
  then have 2: "validateNonEmptyFields (Obj [(js ''a'', Obj [(js ''b'', Null)])]) 2 0
       = Inl (js ''Field \"b\" cannot be null, undefined, or empty at depth 1.'')"
    by (simp add: n m m' del: validateNonEmptyFields.simps)
  have p: "(0::nat) < 10 \<and> \<not> blank_within (10 - 0) (Obj [(js ''x'', Num (Finite 1))])"
    by (simp add: numeral_eq_Suc is_blank_def)
  from validateNonEmptyFields_depth_bound
    [where depth = 10 and currentDepth = 0 and v = "Str []" and key = "js ''y''"
       and pre = "[(js ''x'', Num (Finite 1))]" and post = "[(js ''z'', Null)]"] b(2) p
  have "validateNonEmptyFields
         (Obj ([(js ''x'', Num (Finite 1))] @ (js ''y'', Str []) # [(js ''z'', Null)])) 10 0
       = Inl (field_blank (js ''y'') 0)"
    by blast
  then have 3: "validateNonEmptyFields
         (Obj [(js ''x'', Num (Finite 1)), (js ''y'', Str []), (js ''z'', Null)]) 10 0
       = Inl (js ''Field \"y\" cannot be null, undefined, or empty at depth 0.'')"
    by (simp add: m m' del: validateNonEmptyFields.simps)
  have "\<not> blank_within (1 - 0) (Arr [Num (Finite 1), Null])" by simp
  with validateNonEmptyFields_depth_bound
    [where depth = 1 and currentDepth = 0 and data = "Arr [Num (Finite 1), Null]"]
  have 4: "validateNonEmptyFields (Arr [Num (Finite 1), Null]) 1 0 = Inr ()"
    by blast
  have q: "(0::nat) + 1 < 2 \<and> \<not> blank_within (2 - 0) (Arr [Num (Finite 1)])"
    by (simp add: numeral_eq_Suc is_blank_def)
  from validateNonEmptyFields_depth_bound
    [where depth = 2 and currentDepth = 0 and v = Null and items = "[Num (Finite 1)]"
       and rest = "[]"] b(1) q
  have "validateNonEmptyFields (Arr ([Num (Finite 1)] @ Null # [])) 2 0
       = Inl (value_blank (0 + 1))"
    by blast
  then have 5: "validateNonEmptyFields (Arr [Num (Finite 1), Null]) 2 0
       = Inl (js ''Value cannot be null, undefined, or empty at depth 1.'')"
    by (simp add: m m' del: validateNonEmptyFields.simps)
  have "(3::nat) \<le> 3" by simp
  with validateNonEmptyFields_depth_bound
    [where depth = 3 and currentDepth = 3 and data = "Obj [(js ''a'', Null)]"]
  have 6: "validateNonEmptyFields (Obj [(js ''a'', Null)]) 3 3 = Inr ()"
    by blast
  have i: "(1::nat) < 2 \<and> \<not> blank_within (2 - 1) (Obj [])" by simp
  from validateNonEmptyFields_depth_bound
    [where depth = 2 and currentDepth = 1 and v = Null and key = "js ''b''"
       and pre = "[]" and post = "[]"] b(1) i
  have "validateNonEmptyFields (Obj ([] @ (js ''b'', Null) # [])) 2 1
       = Inl (field_blank (js ''b'') 1)"
    by blast
  then have inner: "validateNonEmptyFields (Obj [(js ''b'', Null)]) 2 (0 + 1)
       = Inl (field_blank (js ''b'') 1)"
    by (simp del: validateNonEmptyFields.simps)
  have o: "(0::nat) < 2 \<and> \<not> blank_within (2 - 0) (Obj [])
      \<and> \<not> is_blank (Obj [(js ''b'', Null)])
      \<and> (typeof (Obj [(js ''b'', Null)]) = js ''object'' \<or> isArray (Obj [(js ''b'', Null)]))"
    by (simp add: is_blank_def numeral_eq_Suc)
  from validateNonEmptyFields_depth_bound
    [where depth = 2 and currentDepth = 0 and w = "Obj [(js ''b'', Null)]"
       and key = "js ''a''" and pre = "[]" and post = "[(js ''c'', Null)]"
       and e = "field_blank (js ''b'') 1"] inner o
  have "validateNonEmptyFields
          (Obj ([] @ (js ''a'', Obj [(js ''b'', Null)]) # [(js ''c'', Null)])) 2 0
       = Inl (field_blank (js ''b'') 1)"
    by blast
  then have 7: "validateNonEmptyFields
          (Obj [(js ''a'', Obj [(js ''b'', Null)]), (js ''c'', Null)]) 2 0
       = Inl (js ''Field \"b\" cannot be null, undefined, or empty at depth 1.'')"
    by (simp add: m m' del: validateNonEmptyFields.simps)
  have j: "(1::nat) + 1 < 3 \<and> \<not> blank_within (3 - 1) (Arr [])"
    by (simp add: numeral_eq_Suc)
  from validateNonEmptyFields_depth_bound
    [where depth = 3 and currentDepth = 1 and v = Null and items = "[]" and rest = "[]"]
    b(1) j
  have "validateNonEmptyFields (Arr ([] @ Null # [])) 3 1 = Inl (value_blank (1 + 1))"
    by blast
  then have inner': "validateNonEmptyFields (Arr [Null]) 3 (0 + 1) = Inl (value_blank 2)"
    by (simp add: numeral_eq_Suc del: validateNonEmptyFields.simps)
  have k: "(0::nat) < 3 \<and> \<not> blank_within (3 - 0) (Arr [Num (Finite 1)])"
    by (simp add: numeral_eq_Suc is_blank_def)
  from validateNonEmptyFields_depth_bound
    [where depth = 3 and currentDepth = 0 and w = "Arr [Null]"
       and items = "[Num (Finite 1)]" and rest = "[Null]" and e = "value_blank 2"] inner' k
  have "validateNonEmptyFields (Arr ([Num (Finite 1)] @ Arr [Null] # [Null])) 3 0
       = Inl (value_blank 2)"
    by blast
  then have 8: "validateNonEmptyFields (Arr [Num (Finite 1), Arr [Null], Null]) 3 0
       = Inl (js ''Value cannot be null, undefined, or empty at depth 2.'')"
    by (simp add: m m' del: validateNonEmptyFields.simps)
  have l: "(0::nat) < 1 \<and> \<not> isArray Null \<and> (\<forall>fs. Null \<noteq> Obj fs)" by simp
  from validateNonEmptyFields_depth_bound
    [where depth = 1 and currentDepth = 0 and data = Null] l
  have "validateNonEmptyFields Null 1 0
          = (if is_blank Null then Inl (value_blank 0) else Inr ())"
    by blast
  then have 9: "validateNonEmptyFields Null 1 0
       = Inl (js ''Value cannot be null, undefined, or empty at depth 0.'')"
    by (simp add: b m m' del: validateNonEmptyFields.simps)
  have z: "(0::nat) < 1" by simp
  from validateNonEmptyFields_depth_bound
    [where depth = 1 and currentDepth = 0 and items = "[]"] z
  have 10: "validateNonEmptyFields (Arr []) 1 0 = Inr ()"
    by (simp del: validateNonEmptyFields.simps)
  from validateNonEmptyFields_depth_bound
    [where depth = 1 and currentDepth = 0 and entries = "[]"] z
  have 11: "validateNonEmptyFields (Obj []) 1 0 = Inr ()"
    by (simp del: validateNonEmptyFields.simps)
  from 1 2 3 4 5 6 7 8 9 10 11 show ?thesis by blast
qed


section \<open>The tests of the repository\<close>

text \<open>
  The expectations of \<open>tests/test.js\<close> for \<open>validateByStructure\<close>, \<open>validateType\<close>,
  \<open>validatePassword\<close> and \<open>isJsScript\<close>, evaluated on the definitions above. The two
  expectations for \<open>isSqlInjection\<close> are proved with the properties of the SQL sanitizer.
\<close>

lemma test_validateByStructure:
  "validateByStructure (Str (js ''string'')) (Str (js ''Hello'')) [] = Valid"
  "validateByStructure (Str (js ''string'')) (Num (Finite 123)) []
     = Failure (js ''Expected type string at path \"\", but got number'')"
  "validateByStructure (Arr [Str (js ''number'')])
     (Arr [Num (Finite 1), Num (Finite 2), Num (Finite 3)]) [] = Valid"
  "validateByStructure (Arr [Str (js ''number'')]) (Arr [Str (js ''one''), Str (js ''two'')]) []
     = Failure (js ''Expected type number at path \"[0]\", but got string'')"
  "validateByStructure (Obj [(js ''name'', Str (js ''string'')), (js ''age'', Str (js ''number''))])
     (Obj [(js ''name'', Str (js ''Alice'')), (js ''age'', Num (Finite 30))]) [] = Valid"
  "validateByStructure (Obj [(js ''name'', Str (js ''string'')), (js ''age'', Str (js ''number''))])
     (Obj [(js ''name'', Str (js ''Alice''))]) []
     = Failure (js ''Missing key \"age\" at path \"\"'')"
  by code_simp+

lemma test_validateType:
  "validateType (Fn StringCtor) (Str (js ''Hello'')) = Inr ()"
  "validateType (Fn NumberCtor) (Num (Finite 123)) = Inr ()"
  "validateType (Fn StringCtor) (Num (Finite 123)) \<noteq> Inr ()"
  "validateType (Fn ArrayCtor) (Str (js ''test'')) \<noteq> Inr ()"
  "validateType (Fn ObjectCtor) (Obj [(js ''key'', Str (js ''value''))]) = Inr ()"
  "validateType (Fn ArrayCtor) (Obj [(js ''key'', Str (js ''value''))]) \<noteq> Inr ()"
  by code_simp+

lemma test_validatePassword:
  "validatePassword (js ''Password1!'') 8 128 = Inr ()"
  "validatePassword (js ''Password123'') 8 128 = Inl password_weak"
  "validatePassword (js ''Pass1!'') 8 128
     = Inl (js ''Password must be at least 8 characters long.'')"
  "validatePassword (replicate 129 (of_char CHR ''P'') @ js ''1!'') 8 128
     = Inl (js ''Password must not exceed 128 characters.'')"
  by code_simp+

lemma test_isJsScript:
  "isJsScript (js ''<script>alert(\"XSS\")</script>'') = js ''alert(&quot;XSS&quot;)''"
  "isJsScript (js ''<div onclick=\"alert('XSS')\">Click me</div>'')
     = js ''&lt;div onclick=&quot;alert(&#39;XSS&#39;)&quot;&gt;Click me&lt;/div&gt;''"
  "isJsScript (js ''<img src=\"javascript:alert('XSS')\" />'')
     = js ''&lt;img src=&quot;javascript:alert(&#39;XSS&#39;)&quot; /&gt;''"
  "isJsScript (js ''<div>Hello <script>alert(\"XSS\")</script> World</div>'')
     = js ''&lt;div&gt;Hello alert(&quot;XSS&quot;) World&lt;/div&gt;''"
  by code_simp+

end
